theory Spec2Isabelle
  imports Main "HOL-Library.Word"
begin

unbundle bit_operations_syntax

section \<open>Data model\<close>

text \<open>
  The package hides a byte payload in the low byte of the colour samples of an image.
  Go's \<^verbatim>\<open>byte\<close>, \<^verbatim>\<open>uint16\<close> and \<^verbatim>\<open>uint32\<close> are words of
  that width; lengths, capacities and loop counters are natural numbers, and the one
  place where the source computes with a possibly negative \<^verbatim>\<open>int\<close> (the size
  handed to \<^verbatim>\<open>make\<close>, the remaining length in \<^verbatim>\<open>Read\<close>) is computed in
  \<^typ>\<open>int\<close>.
\<close>

type_synonym byte = "8 word"
type_synonym uint16 = "16 word"
type_synonym uint32 = "32 word"

text \<open>
  The error values of the package (\<^verbatim>\<open>ImageFullError\<close>, \<^verbatim>\<open>ImageClosedError\<close>,
  the anonymous error of \<^verbatim>\<open>Close\<close> for an unknown format), the error of the
  container decoder, and \<^verbatim>\<open>io.EOF\<close>. A run-time panic is a value of its own type.
\<close>

datatype error =
    ImageFullError
  | ImageClosedError
  | UnacceptedFormat string
  | CodecError string
  | EOF

datatype panic = MakeslicePanic | SliceBoundsPanic | IndexPanic

text \<open>
  \<^verbatim>\<open>image.Image\<close> as the source uses it: the bounds' \<^verbatim>\<open>Max\<close> point and,
  for every position, the four values \<^verbatim>\<open>At(x, y).RGBA()\<close> returns. The bounds'
  \<^verbatim>\<open>Min\<close> point is the origin, as for every image the container decoders return
  for a whole picture; the loops of the source start at 0 whatever \<^verbatim>\<open>Min\<close> is.
\<close>

record Image =
  Max_X :: nat
  Max_Y :: nat
  At_RGBA :: "nat \<Rightarrow> nat \<Rightarrow> uint32 \<times> uint32 \<times> uint32 \<times> uint32"

text \<open>\<^verbatim>\<open>color.NRGBA64\<close> and \<^verbatim>\<open>image.NRGBA64\<close>, the type of the output grid.\<close>

record NRGBA64 =
  R :: uint16
  G :: uint16
  B :: uint16
  A :: uint16

record NRGBA64_Image =
  Rect_Max_X :: nat
  Rect_Max_Y :: nat
  Pix :: "nat \<times> nat \<Rightarrow> NRGBA64"

definition NewNRGBA64 :: "nat \<Rightarrow> nat \<Rightarrow> NRGBA64_Image" where
  "NewNRGBA64 w h =
     \<lparr>Rect_Max_X = w, Rect_Max_Y = h, Pix = (\<lambda>_. \<lparr>R = 0, G = 0, B = 0, A = 0\<rparr>)\<rparr>"

text \<open>\<^verbatim>\<open>SetNRGBA64\<close> does nothing outside the rectangle.\<close>

definition SetNRGBA64 :: "NRGBA64_Image \<Rightarrow> nat \<Rightarrow> nat \<Rightarrow> NRGBA64 \<Rightarrow> NRGBA64_Image" where
  "SetNRGBA64 m x y c =
     (if x < Rect_Max_X m \<and> y < Rect_Max_Y m then m\<lparr>Pix := (Pix m)((x, y) := c)\<rparr> else m)"

definition NRGBA64At :: "NRGBA64_Image \<Rightarrow> nat \<Rightarrow> nat \<Rightarrow> NRGBA64" where
  "NRGBA64At m x y =
     (if x < Rect_Max_X m \<and> y < Rect_Max_Y m then Pix m (x, y)
      else \<lparr>R = 0, G = 0, B = 0, A = 0\<rparr>)"

text \<open>
  \<^verbatim>\<open>color.NRGBA64.RGBA\<close>: each colour sample is multiplied by alpha and divided by
  \<^verbatim>\<open>0xffff\<close>, in \<^verbatim>\<open>uint32\<close>.
\<close>

definition NRGBA64_RGBA :: "NRGBA64 \<Rightarrow> uint32 \<times> uint32 \<times> uint32 \<times> uint32" where
  "NRGBA64_RGBA c =
     ((ucast (R c) * ucast (A c)) div 0xFFFF,
      (ucast (G c) * ucast (A c)) div 0xFFFF,
      (ucast (B c) * ucast (A c)) div 0xFFFF,
      ucast (A c))"

text \<open>
  The grid a reader is given when it is constructed from an output grid: the container
  codec is outside the package and lossless for 16-bit samples, so the decoded image
  reports, at every position, what the \<^verbatim>\<open>NRGBA64\<close> grid reports there.
\<close>

definition decoded_grid :: "NRGBA64_Image \<Rightarrow> Image" where
  "decoded_grid m =
     \<lparr>Max_X = Rect_Max_X m, Max_Y = Rect_Max_Y m,
      At_RGBA = (\<lambda>x y. NRGBA64_RGBA (NRGBA64At m x y))\<rparr>"

text \<open>
  A byte slice: its elements and its capacity. \<^verbatim>\<open>append\<close> within the capacity keeps
  the capacity; beyond it the run time allocates a new array, whose capacity the language
  leaves to the implementation: it is the parameter \<open>grow\<close>, applied to the old capacity
  and the length needed.
\<close>

record slice =
  elems :: "byte list"
  cap :: nat

definition append_slice :: "(nat \<Rightarrow> nat \<Rightarrow> nat) \<Rightarrow> slice \<Rightarrow> byte list \<Rightarrow> slice" where
  "append_slice grow s bs =
     (if length (elems s) + length bs \<le> cap s then s\<lparr>elems := elems s @ bs\<rparr>
      else \<lparr>elems = elems s @ bs, cap = grow (cap s) (length (elems s) + length bs)\<rparr>)"

text \<open>The container encoders, outside the package: format name and grid to the bytes
  written to the sink and the encoder's own error result.\<close>

type_synonym encoder = "string \<Rightarrow> NRGBA64_Image \<Rightarrow> byte list \<times> error option"

record StegoImgWriter =
  is_open :: bool
  orig_img :: Image
  new_img :: NRGBA64_Image
  "output" :: "byte list"
  format :: string
  data :: slice

text \<open>The reader's two fields, \<^verbatim>\<open>data\<close> and \<^verbatim>\<open>pos\<close>.\<close>

record StegoImgReader =
  rdata :: "byte list"
  rpos :: nat

section \<open>The frame header\<close>

text \<open>\<^verbatim>\<open>binary.BigEndian.PutUint32\<close> and \<^verbatim>\<open>binary.BigEndian.Uint32\<close>; the latter
  panics on fewer than four bytes.\<close>

definition PutUint32 :: "uint32 \<Rightarrow> byte list" where
  "PutUint32 v = [ucast (drop_bit 24 v), ucast (drop_bit 16 v), ucast (drop_bit 8 v), ucast v]"

fun Uint32 :: "byte list \<Rightarrow> uint32 option" where
  "Uint32 (b0 # b1 # b2 # b3 # _) =
     Some (ucast b3 OR push_bit 8 (ucast b2) OR push_bit 16 (ucast b1) OR push_bit 24 (ucast b0))"
| "Uint32 _ = None"

section \<open>The writer\<close>

text \<open>
  \<^verbatim>\<open>NewStegoImgWriter\<close>. The result of \<^verbatim>\<open>image.Decode\<close> is its argument
  \<open>dec\<close>: an error, or the image and its format name. \<^verbatim>\<open>make\<close> panics on a
  negative capacity. The sink \<open>out\<close> is the bytes written to it so far. The size is
  computed in \<^typ>\<open>int\<close>: the product cannot overflow Go's \<^verbatim>\<open>int\<close>, since
  \<^verbatim>\<open>image.NewNRGBA64\<close> has allocated eight bytes for every pixel before.
\<close>

definition NewStegoImgWriter ::
  "(nat \<Rightarrow> nat \<Rightarrow> nat) \<Rightarrow> error + Image \<times> string \<Rightarrow> byte list \<Rightarrow> panic + (error + StegoImgWriter)" where
  "NewStegoImgWriter grow dec out =
     (case dec of
        Inl e \<Rightarrow> Inr (Inl e)
      | Inr (im, fmt) \<Rightarrow>
          (let size = (int (Max_X im) - 1) * (int (Max_Y im) - 1) * 3 in
           if size < 0 then Inl MakeslicePanic
           else Inr (Inr
             \<lparr>is_open = True,
              orig_img = im,
              new_img = NewNRGBA64 (Max_X im) (Max_Y im),
              output = out,
              format = ''png'',
              data = append_slice grow \<lparr>elems = [], cap = nat size\<rparr> [0, 0, 0, 0]\<rparr>)))"

text \<open>\<^verbatim>\<open>SpaceLeft\<close>: \<^verbatim>\<open>cap(img.data) - len(img.data)\<close>.\<close>

definition SpaceLeft :: "StegoImgWriter \<Rightarrow> int" where
  "SpaceLeft img = int (cap (data img)) - int (length (elems (data img)))"

text \<open>
  The older, streaming variant of the writer (it stamps nothing and has no header) keeps a
  counter \<^verbatim>\<open>space_left\<close> of its own, which its constructor sets as follows.
\<close>

definition streaming_space_left :: "nat \<Rightarrow> nat \<Rightarrow> int" where
  "streaming_space_left w h = (((int w - 1) * (int h - 1)) * 3) - 3"

text \<open>
  The loop of \<^verbatim>\<open>Write\<close> over the bytes of \<^verbatim>\<open>p\<close>: a byte is appended while the
  length is below the capacity (so \<^verbatim>\<open>append\<close> never reallocates), and the first byte
  that does not fit ends the call with \<^verbatim>\<open>ImageFullError\<close>.
\<close>

fun Write_loop :: "byte list \<Rightarrow> slice \<Rightarrow> nat \<Rightarrow> nat \<times> error option \<times> slice" where
  "Write_loop [] d n = (n, None, d)"
| "Write_loop (b # bs) d n =
     (if length (elems d) < cap d then Write_loop bs (d\<lparr>elems := elems d @ [b]\<rparr>) (n + 1)
      else (n, Some ImageFullError, d))"

definition Write :: "byte list \<Rightarrow> StegoImgWriter \<Rightarrow> nat \<times> error option \<times> StegoImgWriter" where
  "Write p img =
     (if \<not> is_open img then (0, Some ImageClosedError, img)
      else (case Write_loop p (data img) 0 of (n, err, d) \<Rightarrow> (n, err, img\<lparr>data := d\<rparr>)))"

text \<open>The writer after a sequence of \<^verbatim>\<open>Write\<close> calls.\<close>

definition Writes :: "byte list list \<Rightarrow> StegoImgWriter \<Rightarrow> StegoImgWriter" where
  "Writes ps img = fold (\<lambda>p w. snd (snd (Write p w))) ps img"

text \<open>
  \<^verbatim>\<open>Close\<close>, innermost loop first. For one colour value \<open>v\<close> of a pixel: if a byte
  is left, it replaces the low byte of the value and \<open>pos\<close> advances.
\<close>

definition encode_value :: "byte list \<Rightarrow> nat \<Rightarrow> nat \<times> uint32 list \<Rightarrow> nat \<times> uint32 list" where
  "encode_value d v = (\<lambda>(pos, vals).
     if pos < length d \<and> pos < length d
     then (pos + 1, vals[v := (vals ! v AND 0xFF00) OR ucast (d ! pos)])
     else (pos, vals))"

definition encode_pixel ::
  "byte list \<Rightarrow> Image \<Rightarrow> nat \<Rightarrow> nat \<Rightarrow> nat \<times> NRGBA64_Image \<Rightarrow> nat \<times> NRGBA64_Image" where
  "encode_pixel d orig y x = (\<lambda>(pos, nimg).
     (case At_RGBA orig x y of (r, g, b, a) \<Rightarrow>
        (case fold (encode_value d) [0..<3] (pos, [r, g, b]) of (pos', vals) \<Rightarrow>
           (pos', SetNRGBA64 nimg x y
              \<lparr>R = ucast (vals ! 0), G = ucast (vals ! 1), B = ucast (vals ! 2), A = 0xFFFF\<rparr>))))"

definition encode_rows :: "byte list \<Rightarrow> Image \<Rightarrow> NRGBA64_Image \<Rightarrow> nat \<times> NRGBA64_Image" where
  "encode_rows d orig nimg =
     fold (\<lambda>y. fold (encode_pixel d orig y) [0..<Max_X orig]) [0..<Max_Y orig] (0, nimg)"

text \<open>
  \<^verbatim>\<open>img.data[:4]\<close> panics when the capacity is below four. The header is written
  over the first four positions of the array; of these, the slice shows those below its
  length.
\<close>

definition Close :: "encoder \<Rightarrow> StegoImgWriter \<Rightarrow> panic + (error option \<times> StegoImgWriter)" where
  "Close enc img =
     (let d = data img in
      if cap d < 4 then Inl SliceBoundsPanic
      else
        (let size = (word_of_int (int (length (elems d)) - 4) :: uint32);
             bs = take (length (elems d)) (PutUint32 size) @ drop 4 (elems d);
             nimg = snd (encode_rows bs (orig_img img) (new_img img));
             img' = img\<lparr>data := d\<lparr>elems := bs\<rparr>, new_img := nimg, is_open := False\<rparr>
         in if format img = ''png'' then
              Inr (None, img'\<lparr>output := output img @ fst (enc ''png'' nimg)\<rparr>)
            else if format img = ''jpeg'' then
              Inr (None, img'\<lparr>output := output img @ fst (enc ''jpeg'' nimg)\<rparr>)
            else if format img = ''gif'' then
              Inr (None, img'\<lparr>output := output img @ fst (enc ''gif'' nimg)\<rparr>)
            else if format img = ''bmp'' then
              Inr (None, img'\<lparr>output := output img @ fst (enc ''bmp'' nimg)\<rparr>)
            else Inr (Some (UnacceptedFormat (format img)), img')))"

section \<open>The reader\<close>

text \<open>
  The state of the loops of \<^verbatim>\<open>NewStegoImgReader\<close>: the buffer, \<open>pos\<close>,
  \<open>got_size\<close>, and whether the loops run, were left by \<^verbatim>\<open>break ReadLoop\<close>, or
  panicked.
\<close>

datatype control = Running | Broke | Panicked

type_synonym read_state = "byte list \<times> nat \<times> bool \<times> control"

text \<open>The body of the innermost loop, for one colour value.\<close>

definition decode_value :: "uint32 \<Rightarrow> read_state \<Rightarrow> read_state" where
  "decode_value val = (\<lambda>(d, pos, got_size, ctl).
     if ctl \<noteq> Running then (d, pos, got_size, ctl)
     else if pos < length d \<and> pos < length d then
       (let d1 = d[pos := ucast (val AND 0x00FF)]; pos1 = pos + 1 in
        if pos1 = 4 \<and> \<not> got_size then
          (case Uint32 d1 of
             None \<Rightarrow> (d1, pos1, got_size, Panicked)
           | Some sz \<Rightarrow> (replicate (unat sz) 0, 0, True, Running))
        else (d1, pos1, got_size, Running))
     else (d, pos, got_size, Broke))"

definition decode_pixel :: "Image \<Rightarrow> nat \<Rightarrow> nat \<Rightarrow> read_state \<Rightarrow> read_state" where
  "decode_pixel i y x = (\<lambda>(d, pos, got_size, ctl).
     if ctl \<noteq> Running then (d, pos, got_size, ctl)
     else (case At_RGBA i x y of (r, g, b, a) \<Rightarrow>
             fold decode_value [r, g, b] (d, pos, got_size, ctl)))"

definition decode_row :: "Image \<Rightarrow> nat \<Rightarrow> read_state \<Rightarrow> read_state" where
  "decode_row i y = (\<lambda>(d, pos, got_size, ctl).
     if ctl \<noteq> Running then (d, pos, got_size, ctl)
     else fold (decode_pixel i y) [0..<Max_X i] (d, pos, got_size, ctl))"

definition NewStegoImgReader :: "error + Image \<times> string \<Rightarrow> panic + (error + StegoImgReader)" where
  "NewStegoImgReader dec =
     (case dec of
        Inl e \<Rightarrow> Inr (Inl e)
      | Inr (i, fmt) \<Rightarrow>
          (case fold (decode_row i) [0..<Max_Y i] (replicate 4 0, 0, False, Running) of
             (d, pos, got_size, ctl) \<Rightarrow>
               if ctl = Panicked then Inl IndexPanic
               else Inr (Inr \<lparr>rdata = d, rpos = 0\<rparr>)))"

text \<open>
  \<^verbatim>\<open>Read\<close>: the buffer \<open>p\<close> is returned with the bytes copied into it. The count
  \<^verbatim>\<open>to_read\<close> is an \<^verbatim>\<open>int\<close> and can be negative, when the loop does not run.
\<close>

definition Read ::
  "byte list \<Rightarrow> StegoImgReader \<Rightarrow> nat \<times> error option \<times> byte list \<times> StegoImgReader" where
  "Read p img =
     (let to_read =
            (if int (length p) > int (length (rdata img)) - int (rpos img)
             then int (length (rdata img)) - int (rpos img) else int (length p));
          (p', pos') =
            fold (\<lambda>n (q, pos). (q[n := rdata img ! pos], pos + 1)) [0..<nat to_read] (p, rpos img);
          img' = img\<lparr>rpos := pos'\<rparr>
      in if pos' = length (rdata img) then (nat to_read, Some EOF, p', img')
         else (nat to_read, None, p', img'))"

text \<open>
  Reading to the end of the stream with a buffer of \<open>k\<close> bytes: \<^verbatim>\<open>Read\<close> is called
  until it returns \<^verbatim>\<open>io.EOF\<close>, and the bytes of each call are collected. The first
  argument bounds the number of calls; \<open>None\<close> is a loop that did not reach the end within
  the bound.
\<close>

fun read_to_EOF :: "nat \<Rightarrow> nat \<Rightarrow> StegoImgReader \<Rightarrow> byte list option" where
  "read_to_EOF 0 k img = None"
| "read_to_EOF (Suc fuel) k img =
     (case Read (replicate k 0) img of (n, err, p, img') \<Rightarrow>
        if err = Some EOF then Some (take n p)
        else map_option ((@) (take n p)) (read_to_EOF fuel k img'))"

section \<open>Notions used in the statements and proofs\<close>

text \<open>
  What the reader keeps of a colour value: \<^verbatim>\<open>byte(vals[v] & 0x00FF)\<close>.
\<close>

definition low :: "uint32 \<Rightarrow> byte" where "low val = ucast (val AND 0x00FF)"

text \<open>
  The three colour values of a pixel in the order of the innermost loops, and all colour
  values of an image in the order the loops of \<^verbatim>\<open>Close\<close> and of
  \<^verbatim>\<open>NewStegoImgReader\<close> visit them: rows, then columns, then the three values.
  \<open>sample_at\<close> is the value at a position of that order, by its index.
\<close>

definition chans :: "uint32 \<times> uint32 \<times> uint32 \<times> uint32 \<Rightarrow> uint32 list" where
  "chans c = (case c of (r, g, b, a) \<Rightarrow> [r, g, b])"

definition samples :: "Image \<Rightarrow> uint32 list" where
  "samples i = concat (map (\<lambda>y. concat (map (\<lambda>x. chans (At_RGBA i x y)) [0..<Max_X i])) [0..<Max_Y i])"

definition sample_at :: "Image \<Rightarrow> nat \<Rightarrow> uint32" where
  "sample_at i n = chans (At_RGBA i (n div 3 mod Max_X i) (n div 3 div Max_X i)) ! (n mod 3)"

text \<open>
  The reader's buffer as a function of the low bytes of the samples: without a complete
  header, the four-byte header buffer with the bytes read; otherwise a buffer of the
  length the header states, holding the bytes that follow the header, the rest zero.
\<close>

definition decoded_bytes :: "byte list \<Rightarrow> byte list" where
  "decoded_bytes bs =
     (case Uint32 bs of
        None \<Rightarrow> bs @ replicate (4 - length bs) 0
      | Some sz \<Rightarrow> take (unat sz) (drop 4 bs) @ replicate (unat sz - (length bs - 4)) 0)"

text \<open>
  What \<^verbatim>\<open>Close\<close> does to the colour value at index \<open>i\<close> of the traversal, given the
  buffer \<open>d\<close>, and the pixel it then stores for the \<open>k\<close>-th pixel of the traversal.
\<close>

definition stamp :: "byte list \<Rightarrow> nat \<Rightarrow> uint32 \<Rightarrow> uint32" where
  "stamp d i val = (if i < length d then (val AND 0xFF00) OR ucast (d ! i) else val)"

definition stamped_pixel :: "byte list \<Rightarrow> Image \<Rightarrow> nat \<Rightarrow> nat \<Rightarrow> nat \<Rightarrow> NRGBA64" where
  "stamped_pixel d orig k x y =
     (case At_RGBA orig x y of (r, g, b, a) \<Rightarrow>
        \<lparr>R = ucast (stamp d (3 * k) r), G = ucast (stamp d (3 * k + 1) g),
         B = ucast (stamp d (3 * k + 2) b), A = 0xFFFF\<rparr>)"

text \<open>
  The buffer after \<^verbatim>\<open>Close\<close> has written the length over its first four bytes.
\<close>

definition frame_bytes :: "byte list \<Rightarrow> byte list" where
  "frame_bytes es =
     take (length es) (PutUint32 (word_of_int (int (length es) - 4))) @ drop 4 es"

section \<open>Example inputs\<close>

text \<open>
  A carrier of 3 by 3 pixels of one colour, the writer constructed over it, the writer after
  the five bytes of \<^verbatim>\<open>HELLO\<close> were written, and after \<^verbatim>\<open>Close\<close>; two container
  encoders, one of which reports an error.
\<close>

definition carrier33 :: Image where
  "carrier33 = \<lparr>Max_X = 3, Max_Y = 3, At_RGBA = (\<lambda>x y. (0x1234, 0x5678, 0x9ABC, 0xFFFF))\<rparr>"

definition fresh33 :: StegoImgWriter where
  "fresh33 = \<lparr>is_open = True, orig_img = carrier33, new_img = NewNRGBA64 3 3, output = [],
              format = ''png'', data = \<lparr>elems = [0, 0, 0, 0], cap = 12\<rparr>\<rparr>"

definition hello :: "byte list" where
  "hello = [0x48, 0x45, 0x4C, 0x4C, 0x4F]"

definition hello33 :: StegoImgWriter where
  "hello33 = fresh33\<lparr>data := \<lparr>elems = [0, 0, 0, 0, 0x48, 0x45, 0x4C, 0x4C, 0x4F], cap = 12\<rparr>\<rparr>"

definition encoder0 :: encoder where
  "encoder0 = (\<lambda>f m. ([], None))"

definition failing_encoder :: encoder where
  "failing_encoder = (\<lambda>f m. ([], Some (CodecError ''short write'')))"

definition closed33 :: StegoImgWriter where
  "closed33 = hello33
     \<lparr>data := \<lparr>elems = [0, 0, 0, 5, 0x48, 0x45, 0x4C, 0x4C, 0x4F], cap = 12\<rparr>,
      new_img := snd (encode_rows [0, 0, 0, 5, 0x48, 0x45, 0x4C, 0x4C, 0x4F] carrier33 (NewNRGBA64 3 3)),
      is_open := False,
      output := []\<rparr>"

text \<open>
  A carrier of one pixel; a carrier of two pixels whose header states five bytes; a carrier
  of two pixels and the writer over it when \<^verbatim>\<open>append\<close> allocates eight bytes, as Go's run
  time does; the carrier of 10 by 10 pixels of the specification's example.
\<close>

definition carrier11 :: Image where
  "carrier11 = \<lparr>Max_X = 1, Max_Y = 1, At_RGBA = (\<lambda>x y. (0x1234, 0x5678, 0x9ABC, 0xFFFF))\<rparr>"

definition fresh11 :: StegoImgWriter where
  "fresh11 = \<lparr>is_open = True, orig_img = carrier11, new_img = NewNRGBA64 1 1, output = [],
              format = ''png'', data = \<lparr>elems = [0, 0, 0, 0], cap = 4\<rparr>\<rparr>"

definition truncated_carrier :: Image where
  "truncated_carrier =
     \<lparr>Max_X = 2, Max_Y = 1,
      At_RGBA = (\<lambda>x y. if x = 0 then (0, 0, 0, 0xFFFF) else (5, 7, 8, 0xFFFF))\<rparr>"

definition carrier21 :: Image where
  "carrier21 = \<lparr>Max_X = 2, Max_Y = 1, At_RGBA = (\<lambda>x y. (0x1234, 0x5678, 0x9ABC, 0xFFFF))\<rparr>"

definition fresh21 :: StegoImgWriter where
  "fresh21 = \<lparr>is_open = True, orig_img = carrier21, new_img = NewNRGBA64 2 1, output = [],
              format = ''png'', data = \<lparr>elems = [0, 0, 0, 0], cap = 8\<rparr>\<rparr>"

definition carrier1010 :: Image where
  "carrier1010 = \<lparr>Max_X = 10, Max_Y = 10, At_RGBA = (\<lambda>x y. (0x1234, 0x5678, 0x9ABC, 0xFFFF))\<rparr>"

definition fresh1010 :: StegoImgWriter where
  "fresh1010 = \<lparr>is_open = True, orig_img = carrier1010, new_img = NewNRGBA64 10 10, output = [],
              format = ''png'', data = \<lparr>elems = [0, 0, 0, 0], cap = 243\<rparr>\<rparr>"

text \<open>
  A carrier of 40001 by 40001 pixels and a payload of \<open>2\<^sup>3\<^sup>2\<close> bytes, which the writer
  over that carrier accepts.
\<close>

definition big_carrier :: Image where
  "big_carrier = \<lparr>Max_X = 40001, Max_Y = 40001, At_RGBA = (\<lambda>x y. (0, 0, 0, 0xFFFF))\<rparr>"

definition big_payload :: "byte list" where
  "big_payload = replicate 4294967296 0x41"

definition big_writer :: StegoImgWriter where
  "big_writer = \<lparr>is_open = True, orig_img = big_carrier, new_img = NewNRGBA64 40001 40001,
                 output = [], format = ''png'', data = \<lparr>elems = [0, 0, 0, 0], cap = 4800000000\<rparr>\<rparr>"

definition big_written :: StegoImgWriter where
  "big_written = big_writer\<lparr>data := \<lparr>elems = [0, 0, 0, 0] @ big_payload, cap = 4800000000\<rparr>\<rparr>"

definition big_closed :: StegoImgWriter where
  "big_closed = big_written
     \<lparr>data := \<lparr>elems = [0, 0, 0, 0] @ big_payload, cap = 4800000000\<rparr>,
      new_img := snd (encode_rows ([0, 0, 0, 0] @ big_payload) big_carrier (NewNRGBA64 40001 40001)),
      is_open := False,
      output := []\<rparr>"

section \<open>Words and the header\<close>

lemma Uint32_PutUint32: "Uint32 (PutUint32 v @ bs) = Some v"
proof -
  have "ucast (ucast v :: byte) OR push_bit 8 (ucast (ucast (drop_bit 8 v) :: byte))
        OR push_bit 16 (ucast (ucast (drop_bit 16 v) :: byte))
        OR push_bit 24 (ucast (ucast (drop_bit 24 v) :: byte)) = v"
  proof (rule bit_word_eqI)
    fix n :: nat
    assume "n < LENGTH(32)"
    then have n: "n < 32" by simp
    consider "n < 8" | "8 \<le> n" "n < 16" | "16 \<le> n" "n < 24" | "24 \<le> n"
      by linarith
    then show "bit ((ucast (ucast v :: byte) OR push_bit 8 (ucast (ucast (drop_bit 8 v) :: byte))
        OR push_bit 16 (ucast (ucast (drop_bit 16 v) :: byte))
        OR push_bit 24 (ucast (ucast (drop_bit 24 v) :: byte))) :: uint32) n = bit v n"
      using n by cases (auto simp add: bit_simps)
  qed
  then show ?thesis by (simp add: PutUint32_def)
qed

lemma Uint32_Some_length: "Uint32 bs = Some v \<Longrightarrow> 4 \<le> length bs"
  by (cases bs rule: Uint32.cases) simp_all

lemma unat_length_word: "unat (word_of_nat n :: uint32) = n mod 2 ^ 32"
  by (simp add: unat_of_nat)

text \<open>
  An opaque \<^verbatim>\<open>NRGBA64\<close> colour reports its samples unchanged, and the low byte of a
  stamped value is the byte stamped.
\<close>

lemma ucast_opaque: "(ucast (x :: uint16) :: uint32) * 0xFFFF div 0xFFFF = ucast x"
proof (rule word_div_mult)
  show "0 < (0xFFFF :: uint32)" by simp
  have "unat x < 2 ^ 16" using unsigned_less [of x] by simp
  moreover have "unat (ucast x :: uint32) \<le> unat x"
    by (simp add: unsigned_ucast_eq take_bit_nat_less_eq_self)
  ultimately have "unat (ucast x :: uint32) < 2 ^ 16" by linarith
  then have "unat (ucast x :: uint32) * 65535 < 2 ^ 16 * 65535" by simp
  then show "unat (ucast x :: uint32) * unat (0xFFFF :: uint32) < 2 ^ LENGTH(32)" by simp
qed

lemma low_stamp: "low (ucast (ucast ((v AND 0xFF00) OR ucast (b::byte) :: uint32) :: uint16)) = b"
proof -
  have m: "(0xFF :: uint32) = mask 8" "(0xFF00 :: uint32) = push_bit 8 (mask 8)"
    by (simp_all add: mask_eq_exp_minus_1 push_bit_eq_mult)
  show ?thesis
    unfolding low_def m
    by (rule bit_word_eqI) (auto simp add: bit_simps)
qed

lemma NRGBA64_RGBA_opaque:
  "chans (NRGBA64_RGBA \<lparr>R = r, G = g, B = b, A = 0xFFFF\<rparr>) = [ucast r, ucast g, ucast b]"
  using ucast_opaque [of r] ucast_opaque [of g] ucast_opaque [of b]
  by (simp add: chans_def NRGBA64_RGBA_def)

section \<open>The loops of the reader\<close>

text \<open>
  Once the loops are left, no iteration changes the state; so the three nested loops are one
  loop over the samples of the image.
\<close>

lemma decode_value_stopped: "ctl \<noteq> Running \<Longrightarrow> decode_value v (d, pos, g, ctl) = (d, pos, g, ctl)"
  by (simp add: decode_value_def)

lemma fold_decode_value_stopped:
  "ctl \<noteq> Running \<Longrightarrow> fold decode_value vs (d, pos, g, ctl) = (d, pos, g, ctl)"
  by (induction vs) (simp_all add: decode_value_stopped)

lemma decode_pixel_fold: "decode_pixel i y x st = fold decode_value (chans (At_RGBA i x y)) st"
proof -
  obtain d pos g ctl where st: "st = (d, pos, g, ctl)" by (cases st) auto
  obtain r gr b a where px: "At_RGBA i x y = (r, gr, b, a)" by (cases "At_RGBA i x y") auto
  show ?thesis
  proof (cases "ctl = Running")
    case True
    then show ?thesis by (simp add: decode_pixel_def st px chans_def)
  next
    case False
    then show ?thesis
      using fold_decode_value_stopped [OF False, of "chans (At_RGBA i x y)" d pos g]
      by (simp add: decode_pixel_def st)
  qed
qed

lemma fold_decode_pixel:
  "fold (decode_pixel i y) xs st = fold decode_value (concat (map (\<lambda>x. chans (At_RGBA i x y)) xs)) st"
  by (induction xs arbitrary: st) (simp_all add: decode_pixel_fold)

lemma decode_row_fold:
  "decode_row i y st = fold decode_value (concat (map (\<lambda>x. chans (At_RGBA i x y)) [0..<Max_X i])) st"
proof -
  obtain d pos g ctl where st: "st = (d, pos, g, ctl)" by (cases st) auto
  show ?thesis
  proof (cases "ctl = Running")
    case True
    then show ?thesis by (simp add: decode_row_def st fold_decode_pixel)
  next
    case False
    then show ?thesis
      using fold_decode_value_stopped [OF False, of _ d pos g]
      by (simp add: decode_row_def st)
  qed
qed

lemma fold_decode_row:
  "fold (decode_row i) ys st =
   fold decode_value (concat (map (\<lambda>y. concat (map (\<lambda>x. chans (At_RGBA i x y)) [0..<Max_X i])) ys)) st"
  by (induction ys arbitrary: st) (simp_all add: decode_row_fold)

lemma reader_loops: "fold (decode_row i) [0..<Max_Y i] st = fold decode_value (samples i) st"
  by (simp add: fold_decode_row samples_def)

text \<open>
  After the header, the loop copies low bytes into the buffer until the buffer is full or the
  samples end.
\<close>

lemma decode_value_payload:
  "pos < length d \<Longrightarrow> decode_value s (d, pos, True, Running) = (d[pos := low s], Suc pos, True, Running)"
  by (simp add: decode_value_def low_def)

lemma decode_value_break:
  "\<not> pos < length d \<Longrightarrow> decode_value s (d, pos, g, Running) = (d, pos, g, Broke)"
  by (simp add: decode_value_def)

lemma fold_decode_value_payload:
  "pos \<le> length d \<Longrightarrow>
   fold decode_value ss (d, pos, True, Running) =
     (take pos d @ take (length d - pos) (map low ss) @ drop (pos + length ss) d,
      min (length d) (pos + length ss), True,
      if length d - pos < length ss then Broke else Running)"
proof (induction ss arbitrary: d pos)
  case Nil
  then show ?case by simp
next
  case (Cons s ss)
  show ?case
  proof (cases "pos < length d")
    case True
    have t: "take (Suc pos) (d[pos := low s]) = take pos d @ [low s]"
      using True by (simp add: take_Suc_conv_app_nth)
    have c: "take (length d - pos) (low s # map low ss) = low s # take (length d - Suc pos) (map low ss)"
    proof -
      from True have "length d - pos = Suc (length d - Suc pos)" by simp
      then show ?thesis by simp
    qed
    have "fold decode_value (s # ss) (d, pos, True, Running) =
          fold decode_value ss (d[pos := low s], Suc pos, True, Running)"
      using True by (simp add: decode_value_payload)
    also have "\<dots> = (take (Suc pos) (d[pos := low s]) @ take (length d - Suc pos) (map low ss)
                       @ drop (Suc pos + length ss) (d[pos := low s]),
                     min (length d) (Suc pos + length ss), True,
                     if length d - Suc pos < length ss then Broke else Running)"
      using True Cons.IH [of "Suc pos" "d[pos := low s]"] by simp
    finally show ?thesis using True by (auto simp add: t c)
  next
    case False
    with Cons.prems have e: "pos = length d" by simp
    have "fold decode_value (s # ss) (d, pos, True, Running) = fold decode_value ss (d, pos, True, Broke)"
      using False by (simp add: decode_value_break)
    then show ?thesis using e by (simp add: fold_decode_value_stopped)
  qed
qed

lemma fold_decode_value_header:
  "fold decode_value (a # b # c # e # ts) (replicate 4 0, 0, False, Running) =
   fold decode_value ts
     (replicate (unat (the (Uint32 [low a, low b, low c, low e]))) 0, 0, True, Running)"
  by (simp add: decode_value_def low_def numeral_eq_Suc)

lemma fold_decode_value_short:
  "length ss < 4 \<Longrightarrow>
   fold decode_value ss (replicate 4 0, 0, False, Running) =
     (map low ss @ replicate (4 - length ss) 0, length ss, False, Running)"
proof -
  assume "length ss < 4"
  then consider "ss = []" | a where "ss = [a]" | a b where "ss = [a, b]" | a b c where "ss = [a, b, c]"
    by (cases ss rule: list.exhaust; simp; (cases "tl ss"; simp; (cases "tl (tl ss)"; simp)))
  then show ?thesis
    by cases (simp_all add: decode_value_def low_def numeral_eq_Suc)
qed

lemma fold_decode_value_all:
  "\<exists>pos g ctl. fold decode_value ss (replicate 4 0, 0, False, Running) =
     (decoded_bytes (map low ss), pos, g, ctl) \<and> ctl \<noteq> Panicked"
proof (cases "length ss < 4")
  case True
  then have "Uint32 (map low ss) = None"
    by (cases "map low ss" rule: Uint32.cases) auto
  then show ?thesis using True by (auto simp add: fold_decode_value_short decoded_bytes_def)
next
  case False
  then obtain a b c e ts where ss: "ss = a # b # c # e # ts"
    by (cases ss; simp; (cases "tl ss"; simp; (cases "tl (tl ss)"; simp; (cases "tl (tl (tl ss))"; simp))))
  show ?thesis
    by (simp only: ss fold_decode_value_header)
       (auto simp add: fold_decode_value_payload decoded_bytes_def)
qed

lemma NewStegoImgReader_result:
  "NewStegoImgReader (Inr (i, fmt)) = Inr (Inr \<lparr>rdata = decoded_bytes (map low (samples i)), rpos = 0\<rparr>)"
proof -
  obtain pos g ctl where
    "fold decode_value (samples i) (replicate 4 0, 0, False, Running) =
       (decoded_bytes (map low (samples i)), pos, g, ctl)" and "ctl \<noteq> Panicked"
    using fold_decode_value_all [of "samples i"] by blast
  then show ?thesis by (simp add: NewStegoImgReader_def reader_loops)
qed

section \<open>Read\<close>

lemma Read_copy_loop:
  "m \<le> length p \<Longrightarrow> pos + m \<le> length d \<Longrightarrow>
   fold (\<lambda>n (q, pos). (q[n := d ! pos], pos + 1)) [0..<m] (p, pos) =
     (take m (drop pos d) @ drop m p, pos + m)"
proof (induction m)
  case 0
  then show ?case by simp
next
  case (Suc m)
  have t: "take (Suc m) (drop pos d) = take m (drop pos d) @ [d ! (pos + m)]"
    using Suc.prems by (simp add: take_Suc_conv_app_nth)
  have l: "length (take m (drop pos d)) = m"
    using Suc.prems by simp
  have u: "(take m (drop pos d) @ drop m p)[m := d ! (pos + m)] =
           take m (drop pos d) @ d ! (pos + m) # drop (Suc m) p"
  proof -
    have "drop m p = p ! m # drop (Suc m) p"
      using Suc.prems by (simp add: Cons_nth_drop_Suc)
    then show ?thesis using l by (simp add: list_update_append)
  qed
  show ?case
    using Suc by (simp add: t u)
qed

lemma Read_result:
  assumes "rpos img \<le> length (rdata img)"
  shows "Read buf img =
     (min (length buf) (length (rdata img) - rpos img),
      (if rpos img + min (length buf) (length (rdata img) - rpos img) = length (rdata img)
       then Some EOF else None),
      take (min (length buf) (length (rdata img) - rpos img)) (drop (rpos img) (rdata img))
        @ drop (min (length buf) (length (rdata img) - rpos img)) buf,
      img\<lparr>rpos := rpos img + min (length buf) (length (rdata img) - rpos img)\<rparr>)"
proof -
  let ?n = "min (length buf) (length (rdata img) - rpos img)"
  have n: "nat (if int (length buf) > int (length (rdata img)) - int (rpos img)
             then int (length (rdata img)) - int (rpos img) else int (length buf)) = ?n"
    using assms by auto
  have "?n \<le> length buf" "rpos img + ?n \<le> length (rdata img)"
    using assms by auto
  from Read_copy_loop [OF this]
  show ?thesis
    unfolding Read_def Let_def n by simp
qed

lemma read_to_EOF_result:
  "rpos img \<le> length (rdata img) \<Longrightarrow> 0 < k \<Longrightarrow> length (rdata img) - rpos img < fuel \<Longrightarrow>
   read_to_EOF fuel k img = Some (drop (rpos img) (rdata img))"
proof (induction fuel arbitrary: img)
  case 0
  then show ?case by simp
next
  case (Suc fuel)
  let ?n = "min k (length (rdata img) - rpos img)"
  let ?img' = "img\<lparr>rpos := rpos img + ?n\<rparr>"
  have R: "Read (replicate k 0) img =
     (?n, (if rpos img + ?n = length (rdata img) then Some EOF else None),
      take ?n (drop (rpos img) (rdata img)) @ drop ?n (replicate k 0), ?img')"
    using Read_result [OF Suc.prems(1), of "replicate k 0"] by simp
  show ?case
  proof (cases "rpos img + ?n = length (rdata img)")
    case True
    then have "?n = length (rdata img) - rpos img" by linarith
    then show ?thesis using True R by simp
  next
    case False
    with Suc.prems(1) have lt: "k < length (rdata img) - rpos img"
      by (simp add: min_def split: if_splits)
    then have n: "?n = k" by simp
    have "read_to_EOF fuel k ?img' = Some (drop (rpos ?img') (rdata ?img'))"
      using Suc.prems lt by (intro Suc.IH) auto
    then show ?thesis using False R n lt
      by (simp add: take_add [symmetric] add.commute flip: drop_drop) 
  qed
qed

section \<open>Write\<close>

lemma Write_loop_result:
  "Write_loop p d n =
     (n + min (length p) (cap d - length (elems d)),
      (if cap d - length (elems d) < length p then Some ImageFullError else None),
      d\<lparr>elems := elems d @ take (cap d - length (elems d)) p\<rparr>)"
proof (induction p arbitrary: d n)
  case Nil
  then show ?case by simp
next
  case (Cons b bs)
  show ?case
  proof (cases "length (elems d) < cap d")
    case True
    then have "cap d - length (elems d) = Suc (cap d - Suc (length (elems d)))" by simp
    then show ?thesis using True by (simp add: Cons.IH)
  next
    case False
    then show ?thesis by simp
  qed
qed

lemma Write_open:
  "is_open img \<Longrightarrow>
   Write p img =
     (min (length p) (cap (data img) - length (elems (data img))),
      (if cap (data img) - length (elems (data img)) < length p then Some ImageFullError else None),
      img\<lparr>data := (data img)\<lparr>elems := elems (data img) @ take (cap (data img) - length (elems (data img))) p\<rparr>\<rparr>)"
  by (simp add: Write_def Write_loop_result)

lemma Write_closed: "\<not> is_open img \<Longrightarrow> Write p img = (0, Some ImageClosedError, img)"
  by (simp add: Write_def)

lemma Writes_closed: "\<not> is_open img \<Longrightarrow> Writes ps img = img"
  by (induction ps) (simp_all add: Writes_def Write_closed)

lemma Writes_open:
  "is_open img \<Longrightarrow>
   Writes ps img =
     img\<lparr>data := (data img)\<lparr>elems := elems (data img) @ take (cap (data img) - length (elems (data img))) (concat ps)\<rparr>\<rparr>"
proof (induction ps arbitrary: img)
  case Nil
  then show ?case by (simp add: Writes_def)
next
  case (Cons p ps)
  let ?c = "cap (data img) - length (elems (data img))"
  let ?img1 = "img\<lparr>data := (data img)\<lparr>elems := elems (data img) @ take ?c p\<rparr>\<rparr>"
  have "Writes (p # ps) img = Writes ps ?img1"
    using Cons.prems by (simp add: Writes_def Write_open)
  also have "\<dots> = ?img1\<lparr>data := (data ?img1)\<lparr>elems := elems (data ?img1)
       @ take (cap (data ?img1) - length (elems (data ?img1))) (concat ps)\<rparr>\<rparr>"
    using Cons.prems by (intro Cons.IH) simp
  finally show ?case by (simp add: min_def)
qed

text \<open>
  The boundary of \<^verbatim>\<open>Write\<close>, for any open writer and the room it reports: a write of
  exactly \<^verbatim>\<open>SpaceLeft()\<close> bytes stores them all and returns nil; a write of one byte
  more stores all but the last and returns \<^verbatim>\<open>ImageFullError\<close>.
\<close>

lemma Write_room_boundary:
  assumes "is_open w"
    and "int (length p) = SpaceLeft w"
    and "int (length q) = SpaceLeft w + 1"
  shows "Write p w = (length p, None, w\<lparr>data := (data w)\<lparr>elems := elems (data w) @ p\<rparr>\<rparr>) \<and>
     Write q w =
       (length p, Some ImageFullError,
        w\<lparr>data := (data w)\<lparr>elems := elems (data w) @ take (length p) q\<rparr>\<rparr>)"
proof -
  have rem: "cap (data w) - length (elems (data w)) = length p"
    using assms(2) by (simp add: SpaceLeft_def)
  have q: "length q = Suc (length p)" using assms(2,3) by linarith
  show ?thesis
    by (simp add: Write_open [OF assms(1)] rem q)
qed

section \<open>The loops of Close\<close>

text \<open>
  Before the \<open>k\<close>-th pixel of the traversal, \<open>pos\<close> is \<open>3 * k\<close> or the length of the
  buffer, whichever is smaller.
\<close>

lemma upt_3: "[0..<3] = [0, 1, 2]"
  by (simp add: numeral_3_eq_3)

lemma fold_encode_value:
  "fold (encode_value d) [0..<3] (min (3 * k) (length d), [r, g, b]) =
     (min (3 * k + 3) (length d), [stamp d (3 * k) r, stamp d (3 * k + 1) g, stamp d (3 * k + 2) b])"
  by (auto simp add: upt_3 encode_value_def stamp_def min_def)

lemma encode_pixel_result:
  "encode_pixel d orig y x (min (3 * k) (length d), nimg) =
     (min (3 * (k + 1)) (length d), SetNRGBA64 nimg x y (stamped_pixel d orig k x y))"
proof -
  obtain r g b a where px: "At_RGBA orig x y = (r, g, b, a)" by (cases "At_RGBA orig x y") auto
  show ?thesis
    by (simp add: encode_pixel_def px fold_encode_value stamped_pixel_def)
qed

lemma fold_encode_pixel:
  "n \<le> Rect_Max_X nimg \<Longrightarrow> y < Rect_Max_Y nimg \<Longrightarrow>
   fold (encode_pixel d orig y) [0..<n] (min (3 * k0) (length d), nimg) =
     (min (3 * (k0 + n)) (length d),
      nimg\<lparr>Pix := (\<lambda>c. if snd c = y \<and> fst c < n then stamped_pixel d orig (k0 + fst c) (fst c) y
                       else Pix nimg c)\<rparr>)"
proof (induction n)
  case 0
  then show ?case by simp
next
  case (Suc n)
  let ?m = "nimg\<lparr>Pix := (\<lambda>c. if snd c = y \<and> fst c < n then stamped_pixel d orig (k0 + fst c) (fst c) y
                       else Pix nimg c)\<rparr>"
  have f: "(\<lambda>c. if snd c = y \<and> fst c < n then stamped_pixel d orig (k0 + fst c) (fst c) y else Pix nimg c)
             ((n, y) := stamped_pixel d orig (k0 + n) n y) =
           (\<lambda>c. if snd c = y \<and> fst c < Suc n then stamped_pixel d orig (k0 + fst c) (fst c) y else Pix nimg c)"
    by (rule ext) (auto simp add: less_Suc_eq)
  have "fold (encode_pixel d orig y) [0..<Suc n] (min (3 * k0) (length d), nimg) =
        encode_pixel d orig y n (min (3 * (k0 + n)) (length d), ?m)"
    using Suc by simp
  also have "\<dots> = (min (3 * (k0 + n + 1)) (length d), SetNRGBA64 ?m n y (stamped_pixel d orig (k0 + n) n y))"
    by (rule encode_pixel_result)
  finally show ?case
    using Suc.prems by (simp add: SetNRGBA64_def f)
qed

lemma encode_rows_prefix:
  "m \<le> Rect_Max_Y nimg \<Longrightarrow> Rect_Max_X nimg = w \<Longrightarrow>
   fold (\<lambda>y. fold (encode_pixel d orig y) [0..<w]) [0..<m] (0, nimg) =
     (min (3 * (m * w)) (length d),
      nimg\<lparr>Pix := (\<lambda>c. if snd c < m \<and> fst c < w
                       then stamped_pixel d orig (snd c * w + fst c) (fst c) (snd c)
                       else Pix nimg c)\<rparr>)"
proof (induction m)
  case 0
  then show ?case by simp
next
  case (Suc m)
  let ?m = "nimg\<lparr>Pix := (\<lambda>c. if snd c < m \<and> fst c < w
                       then stamped_pixel d orig (snd c * w + fst c) (fst c) (snd c)
                       else Pix nimg c)\<rparr>"
  have f: "(\<lambda>c. if snd c = m \<and> fst c < w then stamped_pixel d orig (m * w + fst c) (fst c) m
                else Pix ?m c) =
           (\<lambda>c. if snd c < Suc m \<and> fst c < w
                       then stamped_pixel d orig (snd c * w + fst c) (fst c) (snd c)
                       else Pix nimg c)"
    by (rule ext) (auto simp add: less_Suc_eq)
  have "fold (\<lambda>y. fold (encode_pixel d orig y) [0..<w]) [0..<Suc m] (0, nimg) =
        fold (encode_pixel d orig m) [0..<w] (min (3 * (m * w)) (length d), ?m)"
    using Suc by simp
  also have "\<dots> = (min (3 * (m * w + w)) (length d),
       ?m\<lparr>Pix := (\<lambda>c. if snd c = m \<and> fst c < w then stamped_pixel d orig (m * w + fst c) (fst c) m
                       else Pix ?m c)\<rparr>)"
    using Suc.prems by (intro fold_encode_pixel) simp_all
  finally show ?case
    by (simp only: f) (simp add: algebra_simps)
qed

lemma encode_rows_result:
  "Rect_Max_X nimg = Max_X orig \<Longrightarrow> Rect_Max_Y nimg = Max_Y orig \<Longrightarrow>
   snd (encode_rows d orig nimg) =
     nimg\<lparr>Pix := (\<lambda>c. if snd c < Max_Y orig \<and> fst c < Max_X orig
                       then stamped_pixel d orig (snd c * Max_X orig + fst c) (fst c) (snd c)
                       else Pix nimg c)\<rparr>"
  by (simp add: encode_rows_def encode_rows_prefix)

lemma stamped_pixel_beyond:
  assumes "At_RGBA im x y = (r, g, b, a)"
  shows "A (stamped_pixel d im k x y) = 0xFFFF"
    and "length d \<le> 3 * k \<Longrightarrow> R (stamped_pixel d im k x y) = ucast r"
    and "length d \<le> 3 * k + 1 \<Longrightarrow> G (stamped_pixel d im k x y) = ucast g"
    and "length d \<le> 3 * k + 2 \<Longrightarrow> B (stamped_pixel d im k x y) = ucast b"
  using assms by (simp_all add: stamped_pixel_def stamp_def)

lemma Close_png:
  "4 \<le> cap (data img) \<Longrightarrow> format img = ''png'' \<Longrightarrow>
   Close enc img =
     Inr (None,
       img\<lparr>data := (data img)\<lparr>elems := frame_bytes (elems (data img))\<rparr>,
           new_img := snd (encode_rows (frame_bytes (elems (data img))) (orig_img img) (new_img img)),
           is_open := False,
           output := output img @
             fst (enc ''png'' (snd (encode_rows (frame_bytes (elems (data img))) (orig_img img) (new_img img))))\<rparr>)"
  by (simp add: Close_def Let_def frame_bytes_def)

lemma Close_new_img:
  "Close enc img = Inr (err, img') \<Longrightarrow>
   new_img img' = snd (encode_rows (frame_bytes (elems (data img))) (orig_img img) (new_img img))"
  by (auto simp add: Close_def Let_def frame_bytes_def split: if_splits)

lemma Close_not_open: "Close enc img = Inr (err, img') \<Longrightarrow> \<not> is_open img'"
  by (auto simp add: Close_def Let_def split: if_splits)

lemma frame_bytes_header:
  "frame_bytes ([0, 0, 0, 0] @ p) = PutUint32 (word_of_nat (length p)) @ p"
  by (simp add: frame_bytes_def PutUint32_def)

lemma length_frame_bytes: "length (frame_bytes es) = length es"
  by (simp add: frame_bytes_def PutUint32_def)

section \<open>The constructor\<close>

lemma size_nonneg: "1 \<le> w \<Longrightarrow> 1 \<le> h \<Longrightarrow> \<not> (int w - 1) * (int h - 1) < 0"
  by (simp add: not_less)

lemma NewStegoImgWriter_result:
  "1 \<le> Max_X im \<Longrightarrow> 1 \<le> Max_Y im \<Longrightarrow>
   NewStegoImgWriter grow (Inr (im, fmt)) out =
     Inr (Inr \<lparr>is_open = True, orig_img = im, new_img = NewNRGBA64 (Max_X im) (Max_Y im),
               output = out, format = ''png'',
               data = append_slice grow
                 \<lparr>elems = [], cap = nat ((int (Max_X im) - 1) * (int (Max_Y im) - 1) * 3)\<rparr> [0, 0, 0, 0]\<rparr>)"
  using size_nonneg [of "Max_X im" "Max_Y im"] by (simp add: NewStegoImgWriter_def Let_def)

lemma fresh_writer:
  "NewStegoImgWriter grow (Inr (im, fmt)) out = Inr (Inr w) \<Longrightarrow>
   w = \<lparr>is_open = True, orig_img = im, new_img = NewNRGBA64 (Max_X im) (Max_Y im),
        output = out, format = ''png'',
        data = \<lparr>elems = [0, 0, 0, 0], cap = cap (data w)\<rparr>\<rparr>"
  by (auto simp add: NewStegoImgWriter_def Let_def append_slice_def split: if_splits)

lemma cap_append_slice:
  "(\<And>c n. n \<le> grow c n) \<Longrightarrow> length (elems s) + length bs \<le> cap (append_slice grow s bs)"
  by (simp add: append_slice_def)

lemma Writes_fresh:
  assumes "NewStegoImgWriter grow (Inr (im, fmt)) out = Inr (Inr w0)"
  shows "orig_img (Writes ps w0) = im" "new_img (Writes ps w0) = NewNRGBA64 (Max_X im) (Max_Y im)"
    "format (Writes ps w0) = ''png''" "output (Writes ps w0) = out"
    "cap (data (Writes ps w0)) = cap (data w0)"
proof -
  from assms have o: "is_open w0" and w: "orig_img w0 = im" "new_img w0 = NewNRGBA64 (Max_X im) (Max_Y im)"
    "format w0 = ''png''" "output w0 = out"
    by (auto simp add: NewStegoImgWriter_def Let_def split: if_splits)
  show "orig_img (Writes ps w0) = im" "new_img (Writes ps w0) = NewNRGBA64 (Max_X im) (Max_Y im)"
    "format (Writes ps w0) = ''png''" "output (Writes ps w0) = out"
    "cap (data (Writes ps w0)) = cap (data w0)"
    using w by (simp_all add: Writes_open [OF o])
qed

section \<open>The samples of the output grid\<close>

lemma chans_nth: "chans c = [chans c ! 0, chans c ! 1, chans c ! 2]"
  by (cases c) (simp add: chans_def)

lemma upt_triple: "[a..<a + 3] = [a, a + 1, a + 2]"
  by (simp add: numeral_3_eq_3 upt_rec)

lemma chans_sample_at:
  assumes "x < Max_X i"
  shows "chans (At_RGBA i x y) = map (sample_at i) [3 * (y * Max_X i + x)..<3 * (y * Max_X i + x) + 3]"
proof -
  define k where "k = y * Max_X i + x"
  have d: "(3 * k + v) div 3 = k" and m: "(3 * k + v) mod 3 = v" if "v < 3" for v
    using that by simp_all
  have xy: "k mod Max_X i = x" "k div Max_X i = y"
    using assms by (simp_all add: k_def)
  have "sample_at i (3 * k + v) = chans (At_RGBA i x y) ! v" if "v < 3" for v
    using that by (simp add: sample_at_def d m xy)
  from this [of 0] this [of 1] this [of 2] have
    "[sample_at i (3 * k), sample_at i (3 * k + 1), sample_at i (3 * k + 2)] = chans (At_RGBA i x y)"
    using chans_nth [of "At_RGBA i x y"] by simp
  then show ?thesis
    unfolding k_def [symmetric] by (simp only: upt_triple list.map)
qed

lemma row_samples:
  "n \<le> Max_X i \<Longrightarrow>
   concat (map (\<lambda>x. chans (At_RGBA i x y)) [0..<n]) =
     map (sample_at i) [3 * (y * Max_X i)..<3 * (y * Max_X i + n)]"
proof (induction n)
  case 0
  then show ?case by simp
next
  case (Suc n)
  have e: "3 * (y * Max_X i + Suc n) = 3 * (y * Max_X i + n) + 3" by simp
  have "3 * (y * Max_X i) \<le> 3 * (y * Max_X i + n)" by simp
  from upt_add_eq_append [OF this, of 3]
  have "[3 * (y * Max_X i)..<3 * (y * Max_X i + Suc n)] =
        [3 * (y * Max_X i)..<3 * (y * Max_X i + n)] @ [3 * (y * Max_X i + n)..<3 * (y * Max_X i + n) + 3]"
    unfolding e .
  moreover have "concat (map (\<lambda>x. chans (At_RGBA i x y)) [0..<Suc n]) =
     concat (map (\<lambda>x. chans (At_RGBA i x y)) [0..<n]) @ chans (At_RGBA i n y)"
    by simp
  ultimately show ?case
    using Suc by (simp only: chans_sample_at map_append)
qed

lemma grid_samples:
  "concat (map (\<lambda>y. concat (map (\<lambda>x. chans (At_RGBA i x y)) [0..<Max_X i])) [0..<m]) =
     map (sample_at i) [0..<3 * (m * Max_X i)]"
proof (induction m)
  case 0
  then show ?case by simp
next
  case (Suc m)
  have e: "3 * (Suc m * Max_X i) = 3 * (m * Max_X i) + 3 * Max_X i"
       "3 * (m * Max_X i + Max_X i) = 3 * (m * Max_X i) + 3 * Max_X i" by simp_all
  have "0 \<le> 3 * (m * Max_X i)" by simp
  from upt_add_eq_append [OF this, of "3 * Max_X i"]
  have "[0..<3 * (Suc m * Max_X i)] = [0..<3 * (m * Max_X i)] @ [3 * (m * Max_X i)..<3 * (m * Max_X i + Max_X i)]"
    unfolding e .
  moreover have "concat (map (\<lambda>y. concat (map (\<lambda>x. chans (At_RGBA i x y)) [0..<Max_X i])) [0..<Suc m]) =
     concat (map (\<lambda>y. concat (map (\<lambda>x. chans (At_RGBA i x y)) [0..<Max_X i])) [0..<m])
       @ concat (map (\<lambda>x. chans (At_RGBA i x m)) [0..<Max_X i])"
    by simp
  ultimately show ?case
    using Suc row_samples [of "Max_X i" i m] by (simp only: map_append)
qed

lemma samples_flat: "samples i = map (sample_at i) [0..<3 * (Max_Y i * Max_X i)]"
  by (simp add: samples_def grid_samples)

lemma length_samples: "length (samples i) = 3 * (Max_Y i * Max_X i)"
  by (simp add: samples_flat)

lemma chans_stamped_pixel:
  "v < 3 \<Longrightarrow>
   chans (NRGBA64_RGBA (stamped_pixel d orig k x y)) ! v =
     ucast (ucast (stamp d (3 * k + v) (chans (At_RGBA orig x y) ! v)) :: uint16)"
proof -
  assume "v < 3"
  then consider "v = 0" | "v = 1" | "v = 2" by linarith
  moreover obtain r g b a where px: "At_RGBA orig x y = (r, g, b, a)"
    by (cases "At_RGBA orig x y") auto
  have "chans (NRGBA64_RGBA (stamped_pixel d orig k x y)) =
        [ucast (ucast (stamp d (3 * k) r) :: uint16), ucast (ucast (stamp d (3 * k + 1) g) :: uint16),
         ucast (ucast (stamp d (3 * k + 2) b) :: uint16)]"
    by (simp add: stamped_pixel_def px NRGBA64_RGBA_opaque)
  moreover have "chans (At_RGBA orig x y) = [r, g, b]"
    by (simp add: chans_def px)
  ultimately show ?thesis
    by cases simp_all
qed

lemma sample_at_stamped:
  assumes "Rect_Max_X nimg = Max_X orig" "Rect_Max_Y nimg = Max_Y orig"
    and "n < 3 * (Max_Y orig * Max_X orig)"
  shows "sample_at (decoded_grid (snd (encode_rows d orig nimg))) n =
           ucast (ucast (stamp d n (sample_at orig n)) :: uint16)"
proof -
  let ?w = "Max_X orig"
  let ?x = "n div 3 mod ?w" and ?y = "n div 3 div ?w"
  from assms(3) have k: "n div 3 < Max_Y orig * ?w" by simp
  then have w: "0 < ?w" by (cases "?w = 0") simp_all
  then have x: "?x < ?w" by simp
  have y: "?y < Max_Y orig" using k w by (simp add: less_mult_imp_div_less)
  have i: "?y * ?w + ?x = n div 3" by simp
  have v: "n mod 3 < 3" by simp
  have "sample_at (decoded_grid (snd (encode_rows d orig nimg))) n =
        chans (NRGBA64_RGBA (stamped_pixel d orig (?y * ?w + ?x) ?x ?y)) ! (n mod 3)"
    using assms(1,2) x y
    by (simp add: sample_at_def decoded_grid_def NRGBA64At_def encode_rows_result)
  also have "\<dots> = ucast (ucast (stamp d (3 * (n div 3) + n mod 3) (chans (At_RGBA orig ?x ?y) ! (n mod 3))) :: uint16)"
    unfolding i by (rule chans_stamped_pixel [OF v])
  finally show ?thesis by (simp add: sample_at_def)
qed

lemma low_sample_at_stamped:
  assumes "Rect_Max_X nimg = Max_X orig" "Rect_Max_Y nimg = Max_Y orig"
    and "n < 3 * (Max_Y orig * Max_X orig)" and "n < length d"
  shows "low (sample_at (decoded_grid (snd (encode_rows d orig nimg))) n) = d ! n"
  using assms by (simp add: sample_at_stamped stamp_def low_stamp)

lemma low_samples_stamped:
  assumes "Rect_Max_X nimg = Max_X orig" "Rect_Max_Y nimg = Max_Y orig"
    and "length d \<le> 3 * (Max_Y orig * Max_X orig)"
  shows "take (length d) (map low (samples (decoded_grid (snd (encode_rows d orig nimg))))) = d"
proof (rule nth_equalityI)
  let ?out = "decoded_grid (snd (encode_rows d orig nimg))"
  have dims: "Max_X ?out = Max_X orig" "Max_Y ?out = Max_Y orig"
    using assms(1,2) by (simp_all add: decoded_grid_def encode_rows_result)
  show "length (take (length d) (map low (samples ?out))) = length d"
    using assms(3) by (simp add: length_samples dims)
  fix n assume "n < length (take (length d) (map low (samples ?out)))"
  then have n: "n < length d" by simp
  with assms(3) have n': "n < 3 * (Max_Y orig * Max_X orig)" by simp
  show "take (length d) (map low (samples ?out)) ! n = d ! n"
    using n n' low_sample_at_stamped [OF assms(1,2) n' n]
    by (simp add: samples_flat dims)
qed

lemma decoded_bytes_frame:
  "unat v \<le> length pl \<Longrightarrow> decoded_bytes (PutUint32 v @ pl @ rest) = take (unat v) pl"
proof -
  assume a: "unat v \<le> length pl"
  have "length (PutUint32 v) = 4" by (simp add: PutUint32_def)
  then show ?thesis
    using a by (simp add: decoded_bytes_def Uint32_PutUint32)
qed

section \<open>The example inputs, evaluated\<close>

lemma fresh33_constructed: "NewStegoImgWriter (\<lambda>c n. n) (Inr (carrier33, ''gif'')) [] = Inr (Inr fresh33)"
  by (simp add: NewStegoImgWriter_def carrier33_def fresh33_def append_slice_def)

lemma hello33_written: "Writes [[0x48, 0x45], [0x4C, 0x4C, 0x4F]] fresh33 = hello33"
  by (simp add: Writes_open fresh33_def hello33_def)

lemma hello33_closed: "Close encoder0 hello33 = Inr (None, closed33)"
  by (simp add: Close_def Let_def hello33_def fresh33_def closed33_def PutUint32_def encoder0_def)

lemma fresh1010_constructed: "NewStegoImgWriter (\<lambda>c n. n) (Inr (carrier1010, ''jpeg'')) [] = Inr (Inr fresh1010)"
  by (simp add: NewStegoImgWriter_def carrier1010_def fresh1010_def append_slice_def)

lemma fresh21_constructed: "NewStegoImgWriter (\<lambda>c n. 8) (Inr (carrier21, ''png'')) [] = Inr (Inr fresh21)"
  by (simp add: NewStegoImgWriter_def carrier21_def fresh21_def append_slice_def)

lemma length_big_payload: "length big_payload = 4294967296"
  by (simp add: big_payload_def)

lemma big_writer_constructed: "NewStegoImgWriter (\<lambda>c n. n) (Inr (big_carrier, ''png'')) [] = Inr (Inr big_writer)"
  by (simp add: NewStegoImgWriter_def big_carrier_def big_writer_def append_slice_def)

lemma samples_truncated_carrier: "samples truncated_carrier = [0, 0, 0, 5, 7, 8]"
  by (simp add: samples_def truncated_carrier_def chans_def upt_rec)

section \<open>From the writer to the reader\<close>

text \<open>
  One \<^verbatim>\<open>Write\<close> to the fresh writer accepts the payload up to the room the writer
  has, and reports \<^verbatim>\<open>ImageFullError\<close> when it had to cut it off. Where the header and
  the accepted bytes fit into the grid, a reader over the output grid of \<^verbatim>\<open>Close\<close>
  holds the accepted bytes, but only the first \<open>n mod 2\<^sup>3\<^sup>2\<close> of \<open>n\<close> accepted bytes: the
  header is a \<^verbatim>\<open>uint32\<close>.
\<close>

lemma frame_roundtrip:
  assumes fresh: "NewStegoImgWriter grow (Inr (im, fmt)) out = Inr (Inr w)"
    and cap4: "4 \<le> cap (data w)"
    and grid: "4 + min (length p) (cap (data w) - 4) \<le> 3 * (Max_Y im * Max_X im)"
  shows "\<exists>w1 w2.
     Write p w =
       (min (length p) (cap (data w) - 4),
        (if cap (data w) - 4 < length p then Some ImageFullError else None),
        w1) \<and>
     Close enc w1 = Inr (None, w2) \<and>
     NewStegoImgReader (Inr (decoded_grid (new_img w2), fmt')) =
       Inr (Inr \<lparr>rdata = take (min (length p) (cap (data w) - 4) mod 2 ^ 32) p, rpos = 0\<rparr>)"
proof -
  let ?W = "Max_X im" and ?H = "Max_Y im"
  define c where "c = cap (data w)"
  let ?w = "\<lparr>is_open = True, orig_img = im, new_img = NewNRGBA64 ?W ?H,
               output = out, format = ''png'',
               data = \<lparr>elems = [0, 0, 0, 0], cap = c\<rparr>\<rparr>"
  have w: "w = ?w"
    using fresh_writer [OF fresh] by (simp add: c_def)
  let ?q = "take (c - 4) p"
  let ?w1 = "?w\<lparr>data := \<lparr>elems = [0, 0, 0, 0] @ ?q, cap = c\<rparr>\<rparr>"
  have lq: "length ?q = min (length p) (c - 4)" by simp
  have o: "is_open ?w" by simp
  have rem: "cap (data ?w) - length (elems (data ?w)) = c - 4" by simp
  have W: "Write p w = (min (length p) (c - 4),
        (if c - 4 < length p then Some ImageFullError else None), ?w1)"
    unfolding w Write_open [OF o] rem by simp
  let ?bs = "PutUint32 (word_of_nat (length ?q)) @ ?q"
  let ?nimg = "snd (encode_rows ?bs im (NewNRGBA64 ?W ?H))"
  let ?w2 = "?w1\<lparr>data := \<lparr>elems = ?bs, cap = c\<rparr>, new_img := ?nimg, is_open := False,
                  output := out @ fst (enc ''png'' ?nimg)\<rparr>"
  have C: "Close enc ?w1 = Inr (None, ?w2)"
  proof -
    have "4 \<le> cap (data ?w1)" using cap4 by (simp add: c_def)
    moreover have "format ?w1 = ''png''" by simp
    ultimately show ?thesis
      by (simp add: Close_png frame_bytes_header del: append.simps)
  qed
  have len: "length ?bs \<le> 3 * (?H * ?W)"
  proof -
    have "length ?bs = 4 + length ?q" by (simp add: PutUint32_def)
    then show ?thesis using grid lq by (simp only: c_def)
  qed
  have dims: "Rect_Max_X (NewNRGBA64 ?W ?H) = Max_X im" "Rect_Max_Y (NewNRGBA64 ?W ?H) = Max_Y im"
    by (simp_all add: NewNRGBA64_def)
  let ?ss = "map low (samples (decoded_grid ?nimg))"
  have "take (length ?bs) ?ss = ?bs"
    by (rule low_samples_stamped [OF dims len])
  then have "?ss = ?bs @ drop (length ?bs) ?ss"
    by (metis append_take_drop_id)
  then have ss: "?ss = PutUint32 (word_of_nat (length ?q)) @ ?q @ drop (length ?bs) ?ss"
    by simp
  have m: "unat (word_of_nat (length ?q) :: uint32) \<le> length ?q"
    unfolding unat_length_word by (rule mod_less_eq_dividend)
  have "decoded_bytes ?ss = take (unat (word_of_nat (length ?q) :: uint32)) ?q"
    by (subst ss) (rule decoded_bytes_frame [OF m])
  also have "\<dots> = take (length ?q mod 2 ^ 32) ?q"
    by (simp only: unat_length_word)
  also have "\<dots> = take (length ?q mod 2 ^ 32) p"
  proof -
    have "length ?q mod 2 ^ 32 \<le> c - 4"
      by (rule order_trans [OF mod_less_eq_dividend]) simp
    then show ?thesis by (simp add: min_def)
  qed
  finally have "decoded_bytes ?ss = take (min (length p) (c - 4) mod 2 ^ 32) p"
    by (simp only: lq)
  then have "NewStegoImgReader (Inr (decoded_grid (new_img ?w2), fmt')) =
       Inr (Inr \<lparr>rdata = take (min (length p) (c - 4) mod 2 ^ 32) p, rpos = 0\<rparr>)"
    by (simp add: NewStegoImgReader_result)
  with W C show ?thesis unfolding c_def by blast
qed

text \<open>
  Nine bytes written to the writer over the 3 by 3 carrier: eight are accepted, and eight
  come back.
\<close>

lemma cut_off_example:
  "\<exists>w1 w2. Write [1, 2, 3, 4, 5, 6, 7, 8, 9] fresh33 = (8, Some ImageFullError, w1) \<and>
     Close encoder0 w1 = Inr (None, w2) \<and>
     NewStegoImgReader (Inr (decoded_grid (new_img w2), ''png'')) =
       Inr (Inr \<lparr>rdata = [1, 2, 3, 4, 5, 6, 7, 8], rpos = 0\<rparr>)"
proof -
  have k: "cap (data fresh33) - 4 = 8" and cap4: "4 \<le> cap (data fresh33)"
    by (simp_all add: fresh33_def)
  have l: "length [1, 2, 3, 4, 5, 6, 7, 8, 9 :: byte] = 9" by simp
  have mn: "min (9::nat) 8 = 8"
    and lt: "(if (8::nat) < 9 then Some ImageFullError else None) = Some ImageFullError"
    by simp_all
  have t: "take (8 mod 2 ^ 32) [1, 2, 3, 4, 5, 6, 7, 8, 9 :: byte] = [1, 2, 3, 4, 5, 6, 7, 8]"
    by simp
  have grid: "4 + min (length [1, 2, 3, 4, 5, 6, 7, 8, 9 :: byte]) (cap (data fresh33) - 4) \<le>
      3 * (Max_Y carrier33 * Max_X carrier33)"
    unfolding k l mn by (simp add: carrier33_def)
  show ?thesis
    using frame_roundtrip [OF fresh33_constructed cap4 grid, of encoder0 "''png''"]
    unfolding k l mn lt t .
qed

section \<open>The claims\<close>

subsection \<open>C1: round trip\<close>

text \<open>
  C1, as amended. For every payload of length \<open>L\<close> with \<open>0 \<le> L \<le> 3 * W * H - 4\<close>, the
  capacity of the whole grid, that the writer freshly constructed over the \<open>W\<close> by \<open>H\<close>
  carrier has room for (\<open>L \<le> SpaceLeft()\<close>), and with \<open>L < 2\<^sup>3\<^sup>2\<close>: \<^verbatim>\<open>Write\<close> accepts the
  \<open>L\<close> bytes with no error, \<^verbatim>\<open>Close\<close> returns nil, the construction of a reader from
  the output grid succeeds, and reading it to the end of the stream, with a buffer of any
  size \<open>k > 0\<close>, yields exactly the \<open>L\<close> bytes written. The room of the writer is a
  hypothesis because the constructor reserves less than the whole grid (C2): a longer payload
  is cut off by \<^verbatim>\<open>Write\<close>.
\<close>

theorem roundtrip:
  assumes "NewStegoImgWriter grow (Inr (im, fmt)) out = Inr (Inr w)"
    and "int (length p) \<le> 3 * int (Max_X im) * int (Max_Y im) - 4"
    and "int (length p) \<le> SpaceLeft w"
    and "length p < 2 ^ 32"
    and "0 < k"
  shows "\<exists>w1 w2 r. Write p w = (length p, None, w1) \<and> Close enc w1 = Inr (None, w2) \<and>
     NewStegoImgReader (Inr (decoded_grid (new_img w2), fmt')) = Inr (Inr r) \<and>
     read_to_EOF (Suc (length p)) k r = Some p"
proof -
  have e: "elems (data w) = [0, 0, 0, 0]"
    using fresh_writer [OF assms(1)] by (metis slice.select_convs(1) StegoImgWriter.select_convs(6))
  from assms(3) have room: "4 + length p \<le> cap (data w)"
    by (simp add: SpaceLeft_def e)
  then have cap4: "4 \<le> cap (data w)" by simp
  from room have mn: "min (length p) (cap (data w) - 4) = length p"
    and nf: "\<not> cap (data w) - 4 < length p"
    by linarith+
  have "int (4 + length p) \<le> int (3 * (Max_Y im * Max_X im))"
    using assms(2) by (simp add: algebra_simps)
  then have grid: "4 + min (length p) (cap (data w) - 4) \<le> 3 * (Max_Y im * Max_X im)"
    unfolding mn by linarith
  from frame_roundtrip [OF assms(1) cap4 grid, of enc fmt'] obtain w1 w2 where
    W: "Write p w = (length p, None, w1)" and C: "Close enc w1 = Inr (None, w2)" and
    N: "NewStegoImgReader (Inr (decoded_grid (new_img w2), fmt')) =
       Inr (Inr \<lparr>rdata = take (length p mod 2 ^ 32) p, rpos = 0\<rparr>)"
    unfolding mn using nf by auto
  let ?r = "\<lparr>rdata = p, rpos = 0\<rparr>"
  from assms(4) have "take (length p mod 2 ^ 32) p = p" by simp
  with N have N': "NewStegoImgReader (Inr (decoded_grid (new_img w2), fmt')) = Inr (Inr ?r)" by simp
  have "read_to_EOF (Suc (length p)) k ?r = Some (drop (rpos ?r) (rdata ?r))"
    using assms(5) by (intro read_to_EOF_result) simp_all
  then have "read_to_EOF (Suc (length p)) k ?r = Some p" by simp
  with W C N' show ?thesis by blast
qed

text \<open>
  The specification's example, \<^verbatim>\<open>HELLO\<close> in a carrier of 10 by 10 pixels, read with a
  buffer of ten bytes; and two bytes in a carrier of 2 by 1 pixels, whose six samples hold
  the header and two bytes, read with a buffer of one byte.
\<close>

theorem roundtrip_witness:
  "(NewStegoImgWriter (\<lambda>c n. n) (Inr (carrier1010, ''jpeg'')) [] = Inr (Inr fresh1010) \<and>
    int (length hello) \<le> 3 * int (Max_X carrier1010) * int (Max_Y carrier1010) - 4 \<and>
    int (length hello) \<le> SpaceLeft fresh1010 \<and>
    length hello < 2 ^ 32 \<and> (0::nat) < 10 \<and>
    (\<exists>w1 w2 r. Write hello fresh1010 = (length hello, None, w1) \<and>
       Close encoder0 w1 = Inr (None, w2) \<and>
       NewStegoImgReader (Inr (decoded_grid (new_img w2), ''png'')) = Inr (Inr r) \<and>
       read_to_EOF (Suc (length hello)) 10 r = Some hello)) \<and>
   (NewStegoImgWriter (\<lambda>c n. 8) (Inr (carrier21, ''png'')) [] = Inr (Inr fresh21) \<and>
    int (length [0x41, 0x42 :: byte]) \<le> 3 * int (Max_X carrier21) * int (Max_Y carrier21) - 4 \<and>
    int (length [0x41, 0x42 :: byte]) \<le> SpaceLeft fresh21 \<and>
    length [0x41, 0x42 :: byte] < 2 ^ 32 \<and> (0::nat) < 1 \<and>
    (\<exists>w1 w2 r. Write [0x41, 0x42] fresh21 = (length [0x41, 0x42 :: byte], None, w1) \<and>
       Close encoder0 w1 = Inr (None, w2) \<and>
       NewStegoImgReader (Inr (decoded_grid (new_img w2), ''png'')) = Inr (Inr r) \<and>
       read_to_EOF (Suc (length [0x41, 0x42 :: byte])) 1 r = Some [0x41, 0x42]))"
proof -
  have g: "int (length hello) \<le> 3 * int (Max_X carrier1010) * int (Max_Y carrier1010) - 4"
    by (simp add: hello_def carrier1010_def)
  have s: "int (length hello) \<le> SpaceLeft fresh1010"
    by (simp add: hello_def SpaceLeft_def fresh1010_def)
  have l: "length hello < 2 ^ 32" by (simp add: hello_def)
  have k: "(0::nat) < 10" by simp
  have g': "int (length [0x41, 0x42 :: byte]) \<le> 3 * int (Max_X carrier21) * int (Max_Y carrier21) - 4"
    by (simp add: carrier21_def)
  have s': "int (length [0x41, 0x42 :: byte]) \<le> SpaceLeft fresh21"
    by (simp add: SpaceLeft_def fresh21_def)
  have l': "length [0x41, 0x42 :: byte] < 2 ^ 32" by simp
  have k': "(0::nat) < 1" by simp
  note a = roundtrip [OF fresh1010_constructed g s l k, of encoder0 "''png''"]
  note b = roundtrip [OF fresh21_constructed g' s' l' k', of encoder0 "''png''"]
  from a b fresh1010_constructed fresh21_constructed g s l k g' s' l' k'
  show ?thesis by blast
qed

text \<open>
  Without the bound \<open>L < 2\<^sup>3\<^sup>2\<close> the claim fails: a payload of \<open>2\<^sup>3\<^sup>2\<close> bytes is within the
  capacity of a carrier of 40001 by 40001 pixels, by the whole grid and by the room of the
  writer, and is accepted in full, the length written
  into the header is \<^verbatim>\<open>uint32(len(img.data) - 4)\<close>, which is 0, and the reader returns
  the empty payload.
\<close>

theorem roundtrip_counterexample:
  "NewStegoImgWriter (\<lambda>c n. n) (Inr (big_carrier, ''png'')) [] = Inr (Inr big_writer) \<and>
   int (length big_payload) \<le> 3 * int (Max_X big_carrier) * int (Max_Y big_carrier) - 4 \<and>
   int (length big_payload) \<le> SpaceLeft big_writer \<and>
   Write big_payload big_writer = (length big_payload, None, big_written) \<and>
   Close encoder0 big_written = Inr (None, big_closed) \<and>
   NewStegoImgReader (Inr (decoded_grid (new_img big_closed), ''png'')) =
     Inr (Inr \<lparr>rdata = [], rpos = 0\<rparr>) \<and>
   read_to_EOF (Suc (length big_payload)) 1 \<lparr>rdata = [], rpos = 0\<rparr> = Some [] \<and>
   big_payload \<noteq> []"
proof -
  have g: "int (length big_payload) \<le> 3 * int (Max_X big_carrier) * int (Max_Y big_carrier) - 4"
    by (simp add: length_big_payload big_carrier_def)
  have s: "int (length big_payload) \<le> SpaceLeft big_writer"
    by (simp add: length_big_payload SpaceLeft_def big_writer_def)
  have W: "Write big_payload big_writer = (length big_payload, None, big_written)"
    by (simp add: Write_open big_writer_def big_written_def length_big_payload)
  have z: "(word_of_nat (length big_payload) :: uint32) = 0"
    by (simp add: length_big_payload)
  have C: "Close encoder0 big_written = Inr (None, big_closed)"
    by (simp add: Close_png big_written_def big_writer_def big_closed_def frame_bytes_header z
        PutUint32_def encoder0_def del: append.simps)
  have k: "cap (data big_writer) = 4800000000" by (simp add: big_writer_def)
  have cap4: "4 \<le> cap (data big_writer)" by (simp add: k)
  have mn: "min (length big_payload) (cap (data big_writer) - 4) = length big_payload"
    by (simp add: k length_big_payload)
  have grid: "4 + min (length big_payload) (cap (data big_writer) - 4) \<le>
      3 * (Max_Y big_carrier * Max_X big_carrier)"
    unfolding mn by (simp add: length_big_payload big_carrier_def)
  from frame_roundtrip [OF big_writer_constructed cap4 grid, of encoder0 "''png''"] W C
  have N: "NewStegoImgReader (Inr (decoded_grid (new_img big_closed), ''png'')) =
       Inr (Inr \<lparr>rdata = take (length big_payload mod 2 ^ 32) big_payload, rpos = 0\<rparr>)"
    unfolding mn by auto
  have "length big_payload mod 2 ^ 32 = 0" by (simp add: length_big_payload)
  with N have N': "NewStegoImgReader (Inr (decoded_grid (new_img big_closed), ''png'')) =
     Inr (Inr \<lparr>rdata = [], rpos = 0\<rparr>)"
    by simp
  have R: "read_to_EOF (Suc (length big_payload)) 1 \<lparr>rdata = [], rpos = 0\<rparr> = Some []"
    using read_to_EOF_result [of "\<lparr>rdata = [], rpos = 0\<rparr>" 1 "Suc (length big_payload)"] by simp
  have n: "big_payload \<noteq> []"
    using length_big_payload by auto
  from big_writer_constructed g s W C N' R n show ?thesis by simp
qed

subsection \<open>C2: the capacity formula\<close>

text \<open>
  C2. The claim is that a fresh writer over a \<open>W\<close> by \<open>H\<close> carrier accepts \<open>3 * W * H - 4\<close>
  payload bytes. The constructor allocates \<open>(W - 1) * (H - 1) * 3\<close> bytes, header included:
  over the 3 by 3 carrier \<^verbatim>\<open>SpaceLeft\<close> is 8, not 23, and a \<^verbatim>\<open>Write\<close> of 23 bytes
  accepts 8 and returns \<^verbatim>\<open>ImageFullError\<close>. The documentation of \<^verbatim>\<open>Write\<close> says the
  image is full after each pixel has had data encoded into it, and the loops of
  \<^verbatim>\<open>Close\<close> run over all \<open>W * H\<close> pixels. The older streaming variant starts from
  \<open>(W - 1) * (H - 1) * 3 - 3\<close>, which is 9 here.
\<close>

theorem capacity_three_by_three:
  "NewStegoImgWriter (\<lambda>c n. n) (Inr (carrier33, ''gif'')) [] = Inr (Inr fresh33) \<and>
   SpaceLeft fresh33 = 8 \<and>
   3 * int (Max_X carrier33) * int (Max_Y carrier33) - 4 = 23 \<and>
   fst (Write (replicate 23 0x41) fresh33) = 8 \<and>
   fst (snd (Write (replicate 23 0x41) fresh33)) = Some ImageFullError \<and>
   streaming_space_left (Max_X carrier33) (Max_Y carrier33) = 9"
  using fresh33_constructed
  by (simp add: SpaceLeft_def Write_open fresh33_def carrier33_def streaming_space_left_def)

subsection \<open>C3: a write that exactly fills the buffer\<close>

text \<open>
  C3. The claim, and the documentation of \<^verbatim>\<open>ImageFullError\<close>, is that a write that fills
  the last available byte returns \<^verbatim>\<open>ImageFullError\<close> with the full count. The loop of
  \<^verbatim>\<open>Write\<close> returns the error only when a byte does not fit: with 8 bytes left, a
  \<^verbatim>\<open>Write\<close> of 8 bytes returns 8 and nil.
\<close>

theorem Write_exact_fill:
  "SpaceLeft fresh33 = 8 \<and>
   Write [1, 2, 3, 4, 5, 6, 7, 8] fresh33 =
     (8, None, fresh33\<lparr>data := \<lparr>elems = [0, 0, 0, 0, 1, 2, 3, 4, 5, 6, 7, 8], cap = 12\<rparr>\<rparr>)"
  by (simp add: SpaceLeft_def Write_def fresh33_def)

subsection \<open>C4: the boundary of the capacity\<close>

text \<open>
  C4. The claim is that a fresh writer over a \<open>W\<close> by \<open>H\<close> carrier accepts exactly
  \<open>capacity(W, H) = 3 * W * H - 4\<close> bytes with no error, and of one byte more accepts
  \<open>capacity(W, H)\<close> and returns \<^verbatim>\<open>ImageFullError\<close>. Over the 3 by 3 carrier the capacity
  is 23: a \<^verbatim>\<open>Write\<close> of 23 bytes and a \<^verbatim>\<open>Write\<close> of 24 bytes each store 8 bytes and
  return the count 8 with \<^verbatim>\<open>ImageFullError\<close>. The boundary lies at the room the
  constructor reserved, which is the defect of C2; at that room \<^verbatim>\<open>Write\<close> behaves as the
  claim says (\<open>Write_room_boundary\<close>).
\<close>

theorem Write_whole_grid_capacity:
  "NewStegoImgWriter (\<lambda>c n. n) (Inr (carrier33, ''gif'')) [] = Inr (Inr fresh33) \<and>
   3 * int (Max_X carrier33) * int (Max_Y carrier33) - 4 = 23 \<and>
   length (replicate 23 (0x41 :: byte)) = 23 \<and>
   Write (replicate 23 0x41) fresh33 =
     (8, Some ImageFullError,
      fresh33\<lparr>data := \<lparr>elems = [0, 0, 0, 0, 0x41, 0x41, 0x41, 0x41, 0x41, 0x41, 0x41, 0x41],
                         cap = 12\<rparr>\<rparr>) \<and>
   length (replicate 24 (0x41 :: byte)) = 24 \<and>
   Write (replicate 24 0x41) fresh33 =
     (8, Some ImageFullError,
      fresh33\<lparr>data := \<lparr>elems = [0, 0, 0, 0, 0x41, 0x41, 0x41, 0x41, 0x41, 0x41, 0x41, 0x41],
                         cap = 12\<rparr>\<rparr>)"
proof -
  have r: "replicate 8 (0x41 :: byte) = [0x41, 0x41, 0x41, 0x41, 0x41, 0x41, 0x41, 0x41]"
    by (simp add: numeral_eq_Suc)
  have o: "is_open fresh33" and k: "cap (data fresh33) - length (elems (data fresh33)) = 8"
    and e: "elems (data fresh33) = [0, 0, 0, 0]" and d: "data fresh33 = \<lparr>elems = [0, 0, 0, 0], cap = 12\<rparr>"
    by (simp_all add: fresh33_def)
  have "Write (replicate 23 0x41) fresh33 =
     (8, Some ImageFullError,
      fresh33\<lparr>data := \<lparr>elems = [0, 0, 0, 0, 0x41, 0x41, 0x41, 0x41, 0x41, 0x41, 0x41, 0x41],
                         cap = 12\<rparr>\<rparr>)"
    unfolding Write_open [OF o] k e by (simp add: d r)
  moreover have "Write (replicate 24 0x41) fresh33 =
     (8, Some ImageFullError,
      fresh33\<lparr>data := \<lparr>elems = [0, 0, 0, 0, 0x41, 0x41, 0x41, 0x41, 0x41, 0x41, 0x41, 0x41],
                         cap = 12\<rparr>\<rparr>)"
    unfolding Write_open [OF o] k e by (simp add: d r)
  ultimately show ?thesis
    using fresh33_constructed by (simp add: carrier33_def)
qed

subsection \<open>C5: a carrier too small for the header\<close>

text \<open>
  C5, as amended. For every carrier of width and height at least 1, one too small to hold
  the four header bytes included, the construction of a writer does not fail: it returns an
  open writer whose buffer holds the four reserved header bytes. The package has no error
  for a carrier that is too small; where the computed size is below four, \<^verbatim>\<open>append\<close>
  allocates a larger array.
\<close>

theorem NewStegoImgWriter_succeeds:
  assumes "1 \<le> Max_X im" and "1 \<le> Max_Y im"
  shows "\<exists>w. NewStegoImgWriter grow (Inr (im, fmt)) out = Inr (Inr w) \<and>
     is_open w \<and> elems (data w) = [0, 0, 0, 0]"
  by (simp add: NewStegoImgWriter_result [OF assms] append_slice_def)

theorem NewStegoImgWriter_succeeds_witness:
  "(1::nat) \<le> Max_X carrier11 \<and> (1::nat) \<le> Max_Y carrier11 \<and>
   (int (Max_X carrier11) - 1) * (int (Max_Y carrier11) - 1) * 3 - 4 = - 4 \<and>
   (\<exists>w. NewStegoImgWriter (\<lambda>c n. n) (Inr (carrier11, ''png'')) [] = Inr (Inr w) \<and>
     is_open w \<and> elems (data w) = [0, 0, 0, 0])"
proof -
  have x: "1 \<le> Max_X carrier11" and y: "1 \<le> Max_Y carrier11"
    by (simp_all add: carrier11_def)
  have c: "(int (Max_X carrier11) - 1) * (int (Max_Y carrier11) - 1) * 3 - 4 = - 4"
    by (simp add: carrier11_def)
  from NewStegoImgWriter_succeeds [OF x y, of "\<lambda>c n. n" "''png''" "[]"] x y c
  show ?thesis by simp
qed

text \<open>
  The claim fails at the carrier of one pixel: its three samples cannot hold the header, the
  capacity is negative by the constructor's arithmetic and by the whole-grid formula, and the
  constructor returns a writer.
\<close>

theorem NewStegoImgWriter_tiny_carrier:
  "(int (Max_X carrier11) - 1) * (int (Max_Y carrier11) - 1) * 3 - 4 < 0 \<and>
   3 * int (Max_X carrier11) * int (Max_Y carrier11) - 4 < 0 \<and>
   NewStegoImgWriter (\<lambda>c n. n) (Inr (carrier11, ''png'')) [] = Inr (Inr fresh11)"
  by (simp add: NewStegoImgWriter_def carrier11_def fresh11_def append_slice_def)

subsection \<open>C6: a carrier shorter than its header states\<close>

text \<open>
  C6, as amended. For every carrier grid, one that is exhausted before the header and the
  bytes it states are available included, the construction of a reader returns a reader and
  a nil error. With fewer than four samples the reader's buffer is the four-byte header
  buffer: the bytes read, then zeros. Otherwise the buffer has the length the header states
  and holds the low bytes of the samples after the header, followed by zeros where the grid
  was exhausted early. The reader makes no attempt to validate what it reads, as its
  documentation says.
\<close>

theorem NewStegoImgReader_no_truncation_error:
  "NewStegoImgReader (Inr (im, fmt)) =
     Inr (Inr \<lparr>rdata =
       (case Uint32 (map low (samples im)) of
          None \<Rightarrow> map low (samples im) @ replicate (4 - length (samples im)) 0
        | Some sz \<Rightarrow> take (unat sz) (drop 4 (map low (samples im))) @
            replicate (4 + unat sz - length (samples im)) 0),
       rpos = 0\<rparr>)"
proof (cases "Uint32 (map low (samples im))")
  case None
  then show ?thesis by (simp add: NewStegoImgReader_result decoded_bytes_def)
next
  case (Some sz)
  then have "4 \<le> length (map low (samples im))" by (rule Uint32_Some_length)
  then have "unat sz - (length (samples im) - 4) = 4 + unat sz - length (samples im)" by simp
  with Some show ?thesis by (simp add: NewStegoImgReader_result decoded_bytes_def)
qed

text \<open>
  The claim fails at a carrier of two pixels whose first four samples state a length of five:
  two samples are left, and the reader is returned with the two bytes and three zeros.
\<close>

theorem NewStegoImgReader_truncated_example:
  "map low (samples truncated_carrier) = [0, 0, 0, 5, 7, 8] \<and>
   NewStegoImgReader (Inr (truncated_carrier, ''png'')) =
     Inr (Inr \<lparr>rdata = [7, 8, 0, 0, 0], rpos = 0\<rparr>)"
proof -
  have l: "map low (samples truncated_carrier) = [0, 0, 0, 5, 7, 8]"
    by (simp add: samples_truncated_carrier low_def)
  have r: "replicate 3 (0::byte) = [0, 0, 0]"
    by (simp add: numeral_3_eq_3)
  have "decoded_bytes [0, 0, 0, 5, 7, 8] = [7, 8, 0, 0, 0]"
    by (simp add: decoded_bytes_def r)
  with l show ?thesis
    by (simp add: NewStegoImgReader_result)
qed

subsection \<open>C7: Read\<close>

text \<open>
  C7. For every reader whose position is within its buffer and every buffer \<open>buf\<close>,
  \<^verbatim>\<open>Read\<close> copies \<open>n = min (len buf) (length - pos)\<close> bytes, starting at \<open>pos\<close>, to the
  front of \<open>buf\<close>, advances \<open>pos\<close> by \<open>n\<close>, returns \<open>n\<close>, and returns \<^verbatim>\<open>io.EOF\<close>
  exactly when the position after the call is the length: the read that exhausts the
  buffer returns its count and the end of the stream together.
\<close>

theorem Read_contract:
  assumes "rpos img \<le> length (rdata img)"
  shows "Read buf img =
     (let n = min (length buf) (length (rdata img) - rpos img) in
      (n, (if rpos img + n = length (rdata img) then Some EOF else None),
       take n (drop (rpos img) (rdata img)) @ drop n buf,
       img\<lparr>rpos := rpos img + n\<rparr>))"
  using Read_result [OF assms, of buf] by (simp add: Let_def)

theorem Read_contract_witness:
  "rpos \<lparr>rdata = [1, 2, 3, 4, 5], rpos = 3\<rparr> \<le> length (rdata \<lparr>rdata = [1, 2, 3, 4, 5], rpos = 3\<rparr>) \<and>
   Read [9, 9, 9, 9] \<lparr>rdata = [1, 2, 3, 4, 5], rpos = 3\<rparr> =
     (2, Some EOF, [4, 5, 9, 9], \<lparr>rdata = [1, 2, 3, 4, 5], rpos = 5\<rparr>)"
  using Read_contract [of "\<lparr>rdata = [1, 2, 3, 4, 5], rpos = 3\<rparr>" "[9, 9, 9, 9]"]
  by (simp add: Let_def)

subsection \<open>C8: Write after Close\<close>

text \<open>
  C8. After \<^verbatim>\<open>Close\<close> has returned, every \<^verbatim>\<open>Write\<close>, after any number of further
  \<^verbatim>\<open>Write\<close> calls, returns the count 0 and \<^verbatim>\<open>ImageClosedError\<close> and leaves the
  writer, its buffer included, as \<^verbatim>\<open>Close\<close> left it.
\<close>

theorem Write_after_Close:
  assumes "Close enc img = Inr (err, img')"
  shows "Write p (Writes ps img') = (0, Some ImageClosedError, img')"
  using Close_not_open [OF assms] by (simp add: Writes_closed Write_closed)

theorem Write_after_Close_witness:
  "Close encoder0 hello33 = Inr (None, closed33) \<and>
   Write [1, 2, 3] (Writes [[7], [8, 9]] closed33) = (0, Some ImageClosedError, closed33)"
  using Write_after_Close [OF hello33_closed, of "[1, 2, 3]" "[[7], [8, 9]]"] hello33_closed by simp

subsection \<open>C9: what Close leaves unchanged\<close>

text \<open>
  C9. For a writer constructed over a carrier and closed after any sequence of writes, and
  every pixel \<open>(x, y)\<close> of the grid: the alpha sample of the output pixel is \<^verbatim>\<open>0xFFFF\<close>,
  and each colour sample whose index in the traversal, \<open>3 * (y * W + x) + v\<close>, is at or beyond
  the length of the buffer (header and payload) is the value the carrier reports for it
  through \<^verbatim>\<open>At(x, y).RGBA()\<close>, converted to \<^verbatim>\<open>uint16\<close> as \<^verbatim>\<open>Close\<close> does.
  That value is all the code reads of the carrier; it is within 16 bits, so the conversion
  loses nothing.
\<close>

theorem Close_frame:
  assumes "NewStegoImgWriter grow (Inr (im, fmt)) out = Inr (Inr w0)"
    and "Close enc (Writes ps w0) = Inr (err, w')"
    and "x < Max_X im" and "y < Max_Y im"
    and "At_RGBA im x y = (r, g, b, a)"
  shows "A (Pix (new_img w') (x, y)) = 0xFFFF \<and>
     (length (elems (data (Writes ps w0))) \<le> 3 * (y * Max_X im + x) \<longrightarrow>
        R (Pix (new_img w') (x, y)) = ucast r) \<and>
     (length (elems (data (Writes ps w0))) \<le> 3 * (y * Max_X im + x) + 1 \<longrightarrow>
        G (Pix (new_img w') (x, y)) = ucast g) \<and>
     (length (elems (data (Writes ps w0))) \<le> 3 * (y * Max_X im + x) + 2 \<longrightarrow>
        B (Pix (new_img w') (x, y)) = ucast b)"
proof -
  let ?bs = "frame_bytes (elems (data (Writes ps w0)))"
  have "new_img w' = snd (encode_rows ?bs im (NewNRGBA64 (Max_X im) (Max_Y im)))"
    using Close_new_img [OF assms(2)] Writes_fresh(1,2) [OF assms(1), of ps] by simp
  then have "Pix (new_img w') (x, y) = stamped_pixel ?bs im (y * Max_X im + x) x y"
    using assms(3,4) by (simp add: encode_rows_result NewNRGBA64_def)
  then show ?thesis
    using stamped_pixel_beyond [OF assms(5), of ?bs "y * Max_X im + x"]
    by (simp add: length_frame_bytes)
qed

theorem Close_frame_witness:
  "NewStegoImgWriter (\<lambda>c n. n) (Inr (carrier33, ''gif'')) [] = Inr (Inr fresh33) \<and>
   Close encoder0 (Writes [[0x48, 0x45], [0x4C, 0x4C, 0x4F]] fresh33) = Inr (None, closed33) \<and>
   (0::nat) < Max_X carrier33 \<and> (1::nat) < Max_Y carrier33 \<and>
   At_RGBA carrier33 0 1 = (0x1234, 0x5678, 0x9ABC, 0xFFFF) \<and>
   length (elems (data (Writes [[0x48, 0x45], [0x4C, 0x4C, 0x4F]] fresh33))) = 9 \<and>
   Pix (new_img closed33) (0, 1) = \<lparr>R = 0x1234, G = 0x5678, B = 0x9ABC, A = 0xFFFF\<rparr>"
proof -
  have c: "Close encoder0 (Writes [[0x48, 0x45], [0x4C, 0x4C, 0x4F]] fresh33) = Inr (None, closed33)"
    by (simp add: hello33_written hello33_closed)
  have x: "(0::nat) < Max_X carrier33" and y: "(1::nat) < Max_Y carrier33"
    and px: "At_RGBA carrier33 0 1 = (0x1234, 0x5678, 0x9ABC, 0xFFFF)"
    by (simp_all add: carrier33_def)
  have l: "length (elems (data (Writes [[0x48, 0x45], [0x4C, 0x4C, 0x4F]] fresh33))) = 9"
    by (simp add: hello33_written hello33_def)
  have m: "Max_X carrier33 = 3" by (simp add: carrier33_def)
  from Close_frame [OF fresh33_constructed c x y px] l m
  have "A (Pix (new_img closed33) (0, 1)) = 0xFFFF \<and> R (Pix (new_img closed33) (0, 1)) = 0x1234 \<and>
        G (Pix (new_img closed33) (0, 1)) = 0x5678 \<and> B (Pix (new_img closed33) (0, 1)) = 0x9ABC"
    by simp
  then have "Pix (new_img closed33) (0, 1) = \<lparr>R = 0x1234, G = 0x5678, B = 0x9ABC, A = 0xFFFF\<rparr>"
    by (cases "Pix (new_img closed33) (0, 1)") simp
  with fresh33_constructed c x y px l show ?thesis by simp
qed

subsection \<open>C10: the output format and the result of Close\<close>

text \<open>
  C10. For every writer the constructor returns, whatever format the decoder reported, and
  after any sequence of writes: the format is \<^verbatim>\<open>png\<close>, and \<^verbatim>\<open>Close\<close> returns nil,
  whatever the container encoder returns, having handed the output grid to the PNG encoder.
  The run time's \<^verbatim>\<open>append\<close> is assumed to allocate at least the length needed, as the
  language specifies.
\<close>

theorem Close_png_nil:
  assumes "NewStegoImgWriter grow (Inr (im, fmt)) out = Inr (Inr w0)"
    and "\<And>c n. n \<le> grow c n"
  shows "format (Writes ps w0) = ''png'' \<and>
     (\<exists>w'. Close enc (Writes ps w0) = Inr (None, w') \<and>
           output w' = out @ fst (enc ''png'' (new_img w')))"
proof -
  obtain s where "data w0 = append_slice grow s [0, 0, 0, 0]"
    using assms(1) by (auto simp add: NewStegoImgWriter_def Let_def split: if_splits)
  then have "4 \<le> cap (data w0)"
    using cap_append_slice [of grow s "[0, 0, 0, 0]"] assms(2) by simp
  then have "4 \<le> cap (data (Writes ps w0))"
    by (simp add: Writes_fresh(5) [OF assms(1)])
  from Close_png [OF this Writes_fresh(3) [OF assms(1)], of enc]
  show ?thesis
    by (simp add: Writes_fresh(3,4) [OF assms(1)])
qed

theorem Close_png_nil_witness:
  "NewStegoImgWriter (\<lambda>c n. n) (Inr (carrier33, ''gif'')) [] = Inr (Inr fresh33) \<and>
   (\<forall>c n. n \<le> (\<lambda>c n :: nat. n) c n) \<and>
   format (Writes [[0x48, 0x45], [0x4C, 0x4C, 0x4F]] fresh33) = ''png'' \<and>
   (\<exists>w'. Close failing_encoder (Writes [[0x48, 0x45], [0x4C, 0x4C, 0x4F]] fresh33) = Inr (None, w') \<and>
         output w' = [] @ fst (failing_encoder ''png'' (new_img w')))"
  using Close_png_nil [OF fresh33_constructed, of "[[0x48, 0x45], [0x4C, 0x4C, 0x4F]]" failing_encoder] fresh33_constructed
  by simp

end
